theory Spec2Isabelle
  imports Complex_Main
begin

section \<open>Configuration: \<^verbatim>\<open>src/config.py\<close>\<close>

text \<open>
  Times are seconds. Python's floats are modelled by exact reals: rounding of the
  floating-point operations is not part of the model.

  \<^verbatim>\<open>LLM_RPM_LIMIT = max(int(os.getenv("LLM_RPM_LIMIT", "8")), 1)\<close>: the argument is
  the parsed value of the environment variable, \<open>None\<close> when it is not set.
\<close>

definition LLM_RPM_LIMIT :: "int option \<Rightarrow> int" where
  "LLM_RPM_LIMIT env = max (case env of None \<Rightarrow> 8 | Some v \<Rightarrow> v) 1"

text \<open>
  \<^verbatim>\<open>LLM_MIN_CALL_INTERVAL = float(os.getenv("LLM_MIN_CALL_INTERVAL",
       str(max(60.0 / LLM_RPM_LIMIT, 8.0))))\<close>
\<close>

definition LLM_MIN_CALL_INTERVAL :: "real option \<Rightarrow> int \<Rightarrow> real" where
  "LLM_MIN_CALL_INTERVAL env rpm =
     (case env of None \<Rightarrow> max (60 / real_of_int rpm) 8 | Some v \<Rightarrow> v)"

text \<open>
  The same two settings of the second service, \<^verbatim>\<open>legal-compliance-advisor-b/src/config.py\<close>:
  \<^verbatim>\<open>LLM_RPM_LIMIT = max(int(os.getenv("LLM_RPM_LIMIT", "4")), 1)\<close> and
  \<^verbatim>\<open>LLM_MIN_CALL_INTERVAL = float(os.getenv("LLM_MIN_CALL_INTERVAL",
       str(max(60.0 / LLM_RPM_LIMIT, 15.0))))\<close>.
\<close>

definition LLM_RPM_LIMIT_b :: "int option \<Rightarrow> int" where
  "LLM_RPM_LIMIT_b env = max (case env of None \<Rightarrow> 4 | Some v \<Rightarrow> v) 1"

definition LLM_MIN_CALL_INTERVAL_b :: "real option \<Rightarrow> int \<Rightarrow> real" where
  "LLM_MIN_CALL_INTERVAL_b env rpm =
     (case env of None \<Rightarrow> max (60 / real_of_int rpm) 15 | Some v \<Rightarrow> v)"

text \<open>\<^verbatim>\<open>LLM_MAX_RETRY_ATTEMPTS = int(os.getenv("LLM_MAX_RETRY_ATTEMPTS", "5"))\<close>\<close>

definition LLM_MAX_RETRY_ATTEMPTS :: "int option \<Rightarrow> int" where
  "LLM_MAX_RETRY_ATTEMPTS env = (case env of None \<Rightarrow> 5 | Some v \<Rightarrow> v)"


section \<open>The global rate limiter: \<^verbatim>\<open>src/utils/global_llm_rate_limiter.py\<close>\<close>

text \<open>
  The module's globals (\<^verbatim>\<open>_REQUEST_HISTORY\<close> is \<open>g_REQUEST_HISTORY\<close> here, and
  so on: a name cannot start with an underscore), and the two classes of \<^verbatim>\<open>google.genai.models\<close> that
  \<^verbatim>\<open>install_global_llm_rate_limiter\<close> patches. A class is \<open>None\<close> when the module
  has no such attribute; otherwise it says what its \<^verbatim>\<open>generate_content\<close> is.
\<close>

datatype genai_method = NoMethod | Original | Wrapped

record limiter_globals =
  g_REQUEST_HISTORY :: "real list"
  g_LAST_REQUEST_TS :: real
  g_MIN_INTERVAL :: real
  g_RPM_LIMIT :: int
  g_PATCH_INSTALLED :: bool
  genai_importable :: bool
  Models :: "genai_method option"
  AsyncModels :: "genai_method option"

text \<open>The module as it is after import, before any call.\<close>

definition initial_globals ::
  "bool \<Rightarrow> genai_method option \<Rightarrow> genai_method option \<Rightarrow> limiter_globals" where
  "initial_globals imp m am =
     \<lparr>g_REQUEST_HISTORY = [], g_LAST_REQUEST_TS = 0, g_MIN_INTERVAL = 1, g_RPM_LIMIT = 60,
      g_PATCH_INSTALLED = False, genai_importable = imp, Models = m, AsyncModels = am\<rparr>"

text \<open>
  \<^verbatim>\<open>_wrap_sync_method\<close> and \<^verbatim>\<open>_wrap_async_method\<close> act alike on the class: nothing
  when the class is missing, has no such method, or the method is already wrapped.
\<close>

fun wrap_method :: "genai_method option \<Rightarrow> genai_method option" where
  "wrap_method None = None"
| "wrap_method (Some NoMethod) = Some NoMethod"
| "wrap_method (Some Wrapped) = Some Wrapped"
| "wrap_method (Some Original) = Some Wrapped"

definition install_global_llm_rate_limiter ::
  "real \<Rightarrow> int \<Rightarrow> limiter_globals \<Rightarrow> limiter_globals" where
  "install_global_llm_rate_limiter min_interval rpm_limit g =
     (if g_PATCH_INSTALLED g then g
      else if \<not> genai_importable g then g
      else if Models g = None \<and> AsyncModels g = None then g
      else g\<lparr>g_MIN_INTERVAL := max min_interval (1 / 10),
             g_RPM_LIMIT := max rpm_limit 1,
             Models := wrap_method (Models g),
             AsyncModels := wrap_method (AsyncModels g),
             g_PATCH_INSTALLED := True\<rparr>)"

text \<open>A sequence of calls, each with its own arguments.\<close>

fun install_all :: "(real \<times> int) list \<Rightarrow> limiter_globals \<Rightarrow> limiter_globals" where
  "install_all [] g = g"
| "install_all ((mi, rpm) # cs) g = install_all cs (install_global_llm_rate_limiter mi rpm g)"


section \<open>Resilient calls: \<^verbatim>\<open>src/utils/llm.py\<close>\<close>

text \<open>
  An exception (an instance of \<^verbatim>\<open>Exception\<close>): its \<^verbatim>\<open>status_code\<close> attribute when it
  has one, whether it is an instance of \<^verbatim>\<open>google.genai.errors.ClientError\<close>, and what
  \<^verbatim>\<open>str\<close> makes of it.
\<close>

datatype exn = Exn (status_code: "int option") (is_client_error: bool) (message: string)

definition RETRYABLE_STATUS :: "int set" where
  "RETRYABLE_STATUS = {429, 500, 503}"

text \<open>
  When \<^verbatim>\<open>google.genai.errors\<close> cannot be imported the module sets
  \<^verbatim>\<open>ClientError = Exception\<close>, and every exception is an instance of it: the first
  argument says so.
\<close>

definition is_retryable :: "bool \<Rightarrow> exn \<Rightarrow> bool" where
  "is_retryable client_error_is_exception error =
     (if (case status_code error of None \<Rightarrow> False | Some s \<Rightarrow> s \<in> RETRYABLE_STATUS) then True
      else if client_error_is_exception \<or> is_client_error error then True
      else False)"

text \<open>
  What the module is given: the digest \<^verbatim>\<open>hashlib.sha256(s.encode()).hexdigest()\<close>,
  the configured default of the attempts, the meaning of \<^verbatim>\<open>ClientError\<close>, and the
  models. \<^verbatim>\<open>model.generate_content(prompt)\<close> is an external call: its outcome may
  depend on the model, on the prompt and on how many calls went out before it.
\<close>

record llm_env =
  sha256_hexdigest :: "string \<Rightarrow> string"
  max_retry_attempts :: int
  client_error_is_exception :: bool
  generate_content :: "string \<Rightarrow> string \<Rightarrow> nat \<Rightarrow> exn + string"

text \<open>
  The module's response cache, and a log of what a call does, in order: an acquisition of
  the rate limiter (\<^verbatim>\<open>with REQUEST_LOCK: _respect_rate_limits()\<close>), a call of the model,
  a \<^verbatim>\<open>time.sleep\<close> of so many seconds.
\<close>

datatype llm_event = Acquire | Generate string string | Sleep int

record llm_world =
  RESPONSE_CACHE :: "string \<rightharpoonup> string"
  events :: "llm_event list"

fun is_generate :: "llm_event \<Rightarrow> bool" where
  "is_generate (Generate m p) = True"
| "is_generate e = False"

definition invocations :: "llm_event list \<Rightarrow> nat" where
  "invocations es = length (filter is_generate es)"

definition acquisitions :: "llm_event list \<Rightarrow> nat" where
  "acquisitions es = length (filter (\<lambda>e. e = Acquire) es)"

text \<open>\<^verbatim>\<open>cache_key = hashlib.sha256(prompt.encode()).hexdigest()[:16]\<close>\<close>

definition cache_key :: "llm_env \<Rightarrow> string \<Rightarrow> string" where
  "cache_key env prompt = take 16 (sha256_hexdigest env prompt)"

text \<open>
  The loop \<^verbatim>\<open>for attempt in range(1, attempts + 1)\<close> of \<^verbatim>\<open>generate_with_retry\<close>, from
  the attempt given, and the two statements after it. \<^verbatim>\<open>time.sleep\<close> raises
  \<^verbatim>\<open>ValueError\<close> on a negative length. The conversion \<^verbatim>\<open>float(base_delay ** attempt)\<close>
  is exact in the model.
\<close>

function attempt_loop ::
  "llm_env \<Rightarrow> string \<Rightarrow> string \<Rightarrow> bool \<Rightarrow> int \<Rightarrow> int \<Rightarrow> int \<Rightarrow> exn option \<Rightarrow> llm_world
     \<Rightarrow> (exn + string) \<times> llm_world" where
  "attempt_loop env model prompt enable_cache attempts base_delay attempt last_error w =
     (if attempt > attempts then
        (case last_error of
           Some e \<Rightarrow> (Inl e, w)
         | None \<Rightarrow>
             (Inl (Exn None False ''generate_with_retry failed without executing model call''), w))
      else
        let w1 = w\<lparr>events := events w @ [Acquire]\<rparr>;
            result = generate_content env model prompt (invocations (events w1));
            w2 = w1\<lparr>events := events w1 @ [Generate model prompt]\<rparr>
        in case result of
             Inr r \<Rightarrow>
               (Inr r,
                if enable_cache
                then w2\<lparr>RESPONSE_CACHE := (RESPONSE_CACHE w2)(cache_key env prompt \<mapsto> r)\<rparr>
                else w2)
           | Inl exc \<Rightarrow>
               if attempt \<ge> attempts \<or> \<not> is_retryable (client_error_is_exception env) exc
               then (Inl exc, w2)
               else
                 let sleep_for = base_delay ^ nat attempt
                 in if sleep_for < 0
                    then (Inl (Exn None False ''sleep length must be non-negative''), w2)
                    else attempt_loop env model prompt enable_cache attempts base_delay
                           (attempt + 1) (Some exc)
                           (w2\<lparr>events := events w2 @ [Sleep sleep_for]\<rparr>))"
  by pat_completeness auto
termination
  by (relation "measure (\<lambda>(env, model, prompt, enable_cache, attempts, base_delay, attempt,
        last_error, w). nat (attempts + 1 - attempt))") auto

text \<open>\<^verbatim>\<open>attempts = max_attempts or LLM_MAX_RETRY_ATTEMPTS\<close>\<close>

definition attempts_of :: "llm_env \<Rightarrow> int option \<Rightarrow> int" where
  "attempts_of env max_attempts =
     (case max_attempts of
        None \<Rightarrow> max_retry_attempts env
      | Some n \<Rightarrow> if n = 0 then max_retry_attempts env else n)"

definition generate_with_retry ::
  "llm_env \<Rightarrow> string \<Rightarrow> string \<Rightarrow> int option \<Rightarrow> int \<Rightarrow> bool \<Rightarrow> llm_world
     \<Rightarrow> (exn + string) \<times> llm_world" where
  "generate_with_retry env model prompt max_attempts base_delay enable_cache w =
     (case (if enable_cache then RESPONSE_CACHE w (cache_key env prompt) else None) of
        Some r \<Rightarrow> (Inr r, w)
      | None \<Rightarrow>
          attempt_loop env model prompt enable_cache (attempts_of env max_attempts) base_delay
            1 None w)"


declare attempt_loop.simps [simp del]

text \<open>
  The schedule the specification gives for \<open>k\<close> attempts starting with attempt \<open>a\<close>:
  each attempt acquires the rate limiter and calls the model, and between attempt \<open>a\<close>
  and the next one lies a sleep of \<open>b ^ a\<close> seconds.
\<close>

fun backoff_schedule :: "string \<Rightarrow> string \<Rightarrow> int \<Rightarrow> nat \<Rightarrow> nat \<Rightarrow> llm_event list" where
  "backoff_schedule m p b a 0 = []"
| "backoff_schedule m p b a (Suc 0) = [Acquire, Generate m p]"
| "backoff_schedule m p b a (Suc (Suc k)) =
     [Acquire, Generate m p, Sleep (b ^ a)] @ backoff_schedule m p b (Suc a) (Suc k)"

text \<open>
  A concrete environment and an empty world, for the examples. The digest of the
  examples is the identity: what is proved of the cache holds for every digest.
\<close>

definition example_env :: "(string \<Rightarrow> string \<Rightarrow> nat \<Rightarrow> exn + string) \<Rightarrow> llm_env" where
  "example_env gen =
     \<lparr>sha256_hexdigest = (\<lambda>s. s), max_retry_attempts = 5,
      client_error_is_exception = False, generate_content = gen\<rparr>"

definition empty_world :: llm_world where
  "empty_world = \<lparr>RESPONSE_CACHE = Map.empty, events = []\<rparr>"


text \<open>Two models that answer differently to every prompt.\<close>

definition two_models :: "string \<Rightarrow> string \<Rightarrow> nat \<Rightarrow> exn + string" where
  "two_models m p k = Inr (''response of '' @ m)"


section \<open>The pipeline state: \<^verbatim>\<open>src/state/shared_state.py\<close>\<close>

text \<open>
  Values of the fields typed \<^verbatim>\<open>Dict\<close> (and of what the downstream service answers) are
  JSON values. In Python \<^verbatim>\<open>None\<close>, \<^verbatim>\<open>False\<close>, zero and the empty string, list and
  dictionary are false in a condition.
\<close>

datatype json =
  JNull | JBool bool | JNum real | JStr string | JList "json list"
  | JDict "(string \<times> json) list"

fun truthy :: "json \<Rightarrow> bool" where
  "truthy JNull = False"
| "truthy (JBool b) = b"
| "truthy (JNum x) = (x \<noteq> 0)"
| "truthy (JStr s) = (s \<noteq> [])"
| "truthy (JList xs) = (xs \<noteq> [])"
| "truthy (JDict kvs) = (kvs \<noteq> [])"

text \<open>
  The three Pydantic models. The two wall-clock fields of \<^verbatim>\<open>AuditEntry\<close>
  (\<^verbatim>\<open>timestamp\<close>, \<^verbatim>\<open>execution_time_ms\<close>) are left out.
\<close>

record clause =
  clause_ident :: string
  clause_type :: string
  clause_text :: string
  clause_location :: string
  confidence :: real

record risk_assessment =
  risk_clause_id :: string
  risk_level :: string
  risk_description :: string
  risk_factors :: "string list"
  severity_score :: real
  risk_model_used :: string

record audit_entry =
  agent_name :: string
  action :: string
  input_data :: json
  output_data :: json
  model_used :: string

text \<open>
  \<^verbatim>\<open>LegalDocumentState\<close> is a \<^verbatim>\<open>TypedDict\<close> whose keys are all required, and
  \<^verbatim>\<open>run_adk_a\<close> creates the state with every key: the state is a record, and
  \<^verbatim>\<open>state.get(k, default)\<close>, \<^verbatim>\<open>state.setdefault(k, default)\<close> and \<^verbatim>\<open>k in state\<close>
  always find the key.
\<close>

record legal_state =
  document_id :: string
  document_path :: "string option"
  document_text :: string
  document_type :: string
  parsed_text :: string
  metadata :: json
  page_count :: int
  document_category :: string
  metadata_summary :: json
  key_entities :: "string list"
  document_outline :: "string list"
  extracted_clauses :: "clause list"
  clause_count :: int
  risk_assessments :: "risk_assessment list"
  high_risk_count :: int
  overall_risk_score :: real
  document_complexity :: real
  use_complex_model :: bool
  processing_strategy :: string
  model_plan :: json
  cost_budget :: real
  cost_spent :: real
  planning_notes :: "string list"
  parallel_tasks :: "string list"
  ready_for_suggestions :: bool
  adk_b_response :: "json option"
  context_bundle :: json
  audit_log :: "audit_entry list"
  recommendation_trace :: "json list"
  errors :: "string list"
  status :: string

text \<open>Decimal digits of a number, as \<^verbatim>\<open>str\<close> and the f-strings print it.\<close>

fun str_nat :: "nat \<Rightarrow> string" where
  "str_nat n =
     (if n < 10 then [char_of (48 + n)]
      else str_nat (n div 10) @ [char_of (48 + n mod 10)])"

declare str_nat.simps [simp del]


section \<open>The dispatch stage: \<^verbatim>\<open>src/agents/a2a_dispatch_agent.py\<close>\<close>

definition DISPATCH_TIMEOUT :: "nat \<times> nat" where
  "DISPATCH_TIMEOUT = (10, 180)"

definition MAX_ATTEMPTS :: nat where
  "MAX_ATTEMPTS = 3"

definition BACKOFF_SECONDS :: nat where
  "BACKOFF_SECONDS = 5"

text \<open>
  What \<^verbatim>\<open>self.session.post\<close> does: it returns a response (its status code, and what
  \<^verbatim>\<open>response.json()\<close> gives or raises), or raises a \<^verbatim>\<open>requests.RequestException\<close>, or
  raises something else. \<^verbatim>\<open>response.ok\<close>, which is also the truth value of a response,
  says that the status code is below 400.
\<close>

datatype http_outcome =
  Response nat "exn + json" | RequestException string | OtherException exn

definition response_ok :: "nat \<Rightarrow> bool" where
  "response_ok code = (code < 400)"

text \<open>
  The configuration and the network: the outcome of a post may depend on the endpoint, the
  payload, the timeout and the number of the attempt.
\<close>

record dispatch_env =
  ENABLE_A2A_DISPATCH :: bool
  MCP_SERVER_B_URL :: string
  post :: "string \<Rightarrow> json \<Rightarrow> nat \<times> nat \<Rightarrow> nat \<Rightarrow> http_outcome"

datatype dispatch_event = Post string json "nat \<times> nat" | SleepSeconds nat

fun is_post :: "dispatch_event \<Rightarrow> bool" where
  "is_post (Post e p t) = True"
| "is_post (SleepSeconds n) = False"

text \<open>\<^verbatim>\<open>MCP_SERVER_B_URL.rstrip('/')\<close>\<close>

definition rstrip_slash :: "string \<Rightarrow> string" where
  "rstrip_slash s = rev (dropWhile (\<lambda>c. c = CHR ''/'') (rev s))"

text \<open>\<^verbatim>\<open>str(last_error)\<close>, where \<^verbatim>\<open>last_error\<close> is \<^verbatim>\<open>None\<close> or an exception.\<close>

definition str_last_error :: "string option \<Rightarrow> string" where
  "str_last_error e = (case e of None \<Rightarrow> ''None'' | Some m \<Rightarrow> m)"

text \<open>
  The loop \<^verbatim>\<open>for attempt in range(1, MAX_ATTEMPTS + 1)\<close>, from the attempt given. It
  yields the response (if any) and the last error, or the exception that left it, with the
  state and the list of what was sent and slept as they are then.
\<close>

function post_loop ::
  "dispatch_env \<Rightarrow> string \<Rightarrow> json \<Rightarrow> nat \<Rightarrow> string option \<Rightarrow> legal_state \<Rightarrow> dispatch_event list
     \<Rightarrow> (exn + (nat \<times> (exn + json)) option \<times> string option) \<times> legal_state \<times> dispatch_event list"
  where
  "post_loop env endpoint payload attempt last_error state sent =
     (if attempt > MAX_ATTEMPTS then (Inr (None, last_error), state, sent)
      else
        case post env endpoint payload DISPATCH_TIMEOUT attempt of
          Response code body \<Rightarrow>
            (Inr (Some (code, body), last_error), state,
             sent @ [Post endpoint payload DISPATCH_TIMEOUT])
        | OtherException exc \<Rightarrow>
            (Inl exc, state, sent @ [Post endpoint payload DISPATCH_TIMEOUT])
        | RequestException exc \<Rightarrow>
            post_loop env endpoint payload (attempt + 1) (Some exc)
              (state\<lparr>planning_notes := planning_notes state @
                 [''Dispatch attempt '' @ str_nat attempt @ '' failed: '' @ exc]\<rparr>)
              (sent @ [Post endpoint payload DISPATCH_TIMEOUT] @
                 (if attempt < MAX_ATTEMPTS then [SleepSeconds (BACKOFF_SECONDS * attempt)]
                  else [])))"
  by pat_completeness auto
termination
  by (relation "measure (\<lambda>(env, endpoint, payload, attempt, last_error, state, sent).
        MAX_ATTEMPTS + 1 - attempt)") auto

declare post_loop.simps [simp del]

text \<open>The \<^verbatim>\<open>except Exception\<close> clause of \<^verbatim>\<open>A2ADispatchAgent.process\<close>.\<close>

definition dispatch_failed_with :: "exn \<Rightarrow> legal_state \<Rightarrow> legal_state" where
  "dispatch_failed_with exc state =
     state\<lparr>errors := errors state @ [''A2ADispatchAgent: '' @ message exc],
           status := ''error''\<rparr>"

definition dispatch_audit_entry :: "dispatch_env \<Rightarrow> nat \<Rightarrow> audit_entry" where
  "dispatch_audit_entry env code =
     \<lparr>agent_name = ''A2ADispatchAgent'', action = ''a2a_dispatch'',
      input_data = JDict [(''endpoint'', JStr (MCP_SERVER_B_URL env))],
      output_data = JDict [(''response_code'',
                            if response_ok code then JNum (real code) else JNull)],
      model_used = ''http''\<rparr>"

text \<open>
  The payload (the context bundle is JSON already, so \<^verbatim>\<open>_make_json_safe\<close> leaves it
  as it is) and the endpoint.
\<close>

definition dispatch_payload :: "legal_state \<Rightarrow> json" where
  "dispatch_payload state =
     JDict [(''document_id'', JStr (document_id state)),
            (''adk_a_data'', context_bundle state)]"

definition dispatch_endpoint :: "dispatch_env \<Rightarrow> string" where
  "dispatch_endpoint env = rstrip_slash (MCP_SERVER_B_URL env) @ ''/generate_suggestions''"

text \<open>\<^verbatim>\<open>A2ADispatchAgent.process\<close>: the state it returns, and what it sent and slept.\<close>

definition dispatch_process ::
  "dispatch_env \<Rightarrow> legal_state \<Rightarrow> legal_state \<times> dispatch_event list" where
  "dispatch_process env state =
     (if \<not> ENABLE_A2A_DISPATCH env then
        (state\<lparr>status := ''completed'',
               planning_notes := planning_notes state @ [''Dispatch disabled via config'']\<rparr>, [])
      else if \<not> ready_for_suggestions state then
        (state\<lparr>status := ''completed'',
               planning_notes := planning_notes state @
                 [''Dispatch skipped: no actionable risks detected'']\<rparr>, [])
      else
        case post_loop env (dispatch_endpoint env) (dispatch_payload state) 1 None state [] of
          (Inl exc, state1, sent) \<Rightarrow> (dispatch_failed_with exc state1, sent)
        | (Inr (None, last_error), state1, sent) \<Rightarrow>
               (state1\<lparr>errors := errors state1 @
                          [''ADK-B dispatch failed after '' @ str_nat MAX_ATTEMPTS @
                           '' attempts: '' @ str_last_error last_error],
                        adk_b_response :=
                          Some (JDict [(''status'', JStr ''dispatch_failed''),
                                       (''error'', JStr (str_last_error last_error))]),
                        planning_notes := planning_notes state1 @
                          [''ADK-B unreachable; captured warning''],
                        status := ''completed_with_warning''\<rparr>, sent)
        | (Inr (Some (code, body), last_error), state1, sent) \<Rightarrow>
               if response_ok code then
                 (case body of
                    Inl exc \<Rightarrow> (dispatch_failed_with exc state1, sent)
                  | Inr answer \<Rightarrow>
                      (state1\<lparr>adk_b_response := Some answer,
                               planning_notes := planning_notes state1 @
                                 [''ADK-B suggestions requested via MCP portal''],
                               status := ''completed'',
                               audit_log := audit_log state1 @ [dispatch_audit_entry env code]\<rparr>,
                       sent))
               else
                 (state1\<lparr>adk_b_response :=
                            Some (JDict [(''status'', JStr ''dispatch_failed''),
                                         (''error'', JStr (''HTTP '' @ str_nat code))]),
                          status := ''completed_with_warning'',
                          audit_log := audit_log state1 @ [dispatch_audit_entry env code]\<rparr>,
                  sent))"


section \<open>The scheduler: \<^verbatim>\<open>src/agents/parallel_insights_agent.py\<close>\<close>

text \<open>
  The four stage agents. \<^verbatim>\<open>agent.process(state)\<close> works on the dictionary it is given
  and returns that same dictionary, or raises an exception; when it raises, the
  dictionary is as it was (the agents raise only before their own \<^verbatim>\<open>try\<close> block).
\<close>

record stage_agents =
  clause_agent :: "legal_state \<Rightarrow> exn + legal_state"
  summary_agent :: "legal_state \<Rightarrow> exn + legal_state"
  risk_agent :: "legal_state \<Rightarrow> exn + legal_state"
  dispatch_agent :: "legal_state \<Rightarrow> exn + legal_state"

text \<open>
  An entry of \<^verbatim>\<open>results\<close> refers either to the dictionary \<^verbatim>\<open>state\<close> itself (the
  fallback \<^verbatim>\<open>results[label] = state\<close>) or to another dictionary. Reading through the
  first kind of reference sees \<^verbatim>\<open>state\<close> as it is at that moment.
\<close>

datatype state_ref = Same | Other legal_state

fun deref :: "legal_state \<Rightarrow> state_ref \<Rightarrow> legal_state" where
  "deref state Same = state"
| "deref state (Other s) = s"

record results =
  clauses :: "state_ref option"
  summary :: "state_ref option"
  risk :: "state_ref option"
  suggestion :: "state_ref option"

datatype sched_event = Ran string | Slept nat

fun is_ran :: "sched_event \<Rightarrow> bool" where
  "is_ran (Ran l) = True"
| "is_ran (Slept n) = False"

text \<open>\<^verbatim>\<open>copy.deepcopy(state)\<close> is the same value in another dictionary.\<close>

definition run_clause_task :: "stage_agents \<Rightarrow> legal_state \<Rightarrow> exn + legal_state" where
  "run_clause_task agents state = clause_agent agents state"

definition run_summary_task :: "stage_agents \<Rightarrow> legal_state \<Rightarrow> exn + legal_state" where
  "run_summary_task agents state = summary_agent agents state"

definition run_risk_task ::
  "stage_agents \<Rightarrow> legal_state \<Rightarrow> legal_state \<Rightarrow> exn + legal_state" where
  "run_risk_task agents state clause_state =
     risk_agent agents
       (state\<lparr>extracted_clauses := extracted_clauses clause_state,
              clause_count := clause_count clause_state\<rparr>)"

definition run_suggestion_task :: "stage_agents \<Rightarrow> legal_state \<Rightarrow> exn + legal_state" where
  "run_suggestion_task agents risk_state = dispatch_agent agents risk_state"

text \<open>
  The four \<^verbatim>\<open>try\<close> blocks of \<^verbatim>\<open>_execute_sequential_tasks\<close>: each gives the entry of
  \<^verbatim>\<open>results\<close>, the errors it adds, and what ran and slept. The dispatch works on the
  dictionary of the risk result, so that result is afterwards what the dispatch made of
  it; when the risk task has failed, the dispatch works on \<^verbatim>\<open>state\<close> itself, and the
  block also gives \<^verbatim>\<open>state\<close> as the dispatch leaves it.
\<close>

definition clauses_block ::
  "stage_agents \<Rightarrow> legal_state \<Rightarrow> state_ref \<times> (string \<times> exn) list \<times> sched_event list" where
  "clauses_block agents state =
     (case run_clause_task agents state of
        Inr c \<Rightarrow> (Other c, [], [Ran ''clauses'', Slept 15])
      | Inl e \<Rightarrow> (Same, [(''clauses'', e)], [Ran ''clauses'']))"

definition summary_block ::
  "stage_agents \<Rightarrow> legal_state \<Rightarrow> state_ref \<times> (string \<times> exn) list \<times> sched_event list" where
  "summary_block agents state =
     (case run_summary_task agents state of
        Inr m \<Rightarrow> (Other m, [], [Ran ''summary'', Slept 15])
      | Inl e \<Rightarrow> (Same, [(''summary'', e)], [Ran ''summary'']))"

definition risk_block ::
  "stage_agents \<Rightarrow> legal_state \<Rightarrow> state_ref
     \<Rightarrow> state_ref \<times> (string \<times> exn) list \<times> sched_event list" where
  "risk_block agents state clause_ref =
     (case run_risk_task agents state (deref state clause_ref) of
        Inr r \<Rightarrow> (Other r, [], [Ran ''risk'', Slept 15])
      | Inl e \<Rightarrow> (Same, [(''risk'', e)], [Ran ''risk'']))"

definition suggestion_block ::
  "stage_agents \<Rightarrow> legal_state \<Rightarrow> state_ref
     \<Rightarrow> legal_state \<times> state_ref \<times> state_ref \<times> (string \<times> exn) list" where
  "suggestion_block agents state risk_ref =
     (case risk_ref of
        Other r \<Rightarrow>
          (case run_suggestion_task agents r of
             Inr r' \<Rightarrow> (state, Other r', Other r', [])
           | Inl e \<Rightarrow> (state, Other r, Same, [(''suggestion'', e)]))
      | Same \<Rightarrow>
          (case run_suggestion_task agents state of
             Inr s' \<Rightarrow> (s', Same, Same, [])
           | Inl e \<Rightarrow> (state, Same, Same, [(''suggestion'', e)])))"

text \<open>
  \<^verbatim>\<open>_execute_sequential_tasks\<close>: the results, the errors, the dictionary \<^verbatim>\<open>state\<close> as
  the tasks leave it, and what ran and slept.
\<close>

definition execute_sequential_tasks ::
  "stage_agents \<Rightarrow> legal_state
     \<Rightarrow> results \<times> (string \<times> exn) list \<times> legal_state \<times> sched_event list" where
  "execute_sequential_tasks agents state =
     (let (rc, e1, t1) = clauses_block agents state;
          (rs, e2, t2) = summary_block agents state;
          (rr, e3, t3) = risk_block agents state rc;
          (state', rr', rg, e4) = suggestion_block agents state rr
      in (\<lparr>clauses = Some rc, summary = Some rs, risk = Some rr', suggestion = Some rg\<rparr>,
          e1 @ e2 @ e3 @ e4, state', t1 @ t2 @ t3 @ [Ran ''suggestion'']))"

text \<open>
  \<^verbatim>\<open>_execute_parallel_tasks\<close>. Each task works on a copy and the agents are functions of
  the state they are given, so the outcome does not depend on how the event loop
  interleaves them. The risk task awaits the clause task and the suggestion task awaits
  the risk task: a failure of the awaited task is the failure of the awaiting one, which
  then does not run its agent.
\<close>

definition execute_parallel_tasks ::
  "stage_agents \<Rightarrow> legal_state \<Rightarrow> results \<times> (string \<times> exn) list \<times> sched_event list" where
  "execute_parallel_tasks agents state =
     (let c = run_clause_task agents state;
          m = run_summary_task agents state;
          r = (case c of Inl e \<Rightarrow> Inl e | Inr cs \<Rightarrow> run_risk_task agents state cs);
          g = (case r of Inl e \<Rightarrow> Inl e | Inr rs \<Rightarrow> run_suggestion_task agents rs);
          outcome = (\<lambda>x. case x of Inl e \<Rightarrow> None | Inr s \<Rightarrow> Some (Other s));
          failure = (\<lambda>label x. case x of Inl e \<Rightarrow> [(label, e)] | Inr s \<Rightarrow> [])
      in (\<lparr>clauses = outcome c, summary = outcome m,
           risk = (case g of Inr rs' \<Rightarrow> Some (Other rs') | Inl e \<Rightarrow> outcome r),
           suggestion = outcome g\<rparr>,
          failure ''clauses'' c @ failure ''summary'' m @ failure ''risk'' r
            @ failure ''suggestion'' g,
          [Ran ''clauses'', Ran ''summary'']
            @ (case c of Inl e \<Rightarrow> [] | Inr cs \<Rightarrow> [Ran ''risk''])
            @ (case r of Inl e \<Rightarrow> [] | Inr rs \<Rightarrow> [Ran ''suggestion''])))"

text \<open>\<^verbatim>\<open>_run_parallel_execution\<close>, given \<^verbatim>\<open>FORCE_SEQUENTIAL_EXECUTION\<close>.\<close>

definition run_parallel_execution ::
  "bool \<Rightarrow> stage_agents \<Rightarrow> legal_state
     \<Rightarrow> results \<times> (string \<times> exn) list \<times> legal_state \<times> sched_event list" where
  "run_parallel_execution force_sequential agents state =
     (if force_sequential then execute_sequential_tasks agents state
      else (let (res, errs, trace) = execute_parallel_tasks agents state
            in (res, errs, state, trace)))"

text \<open>\<^verbatim>\<open>_extend_audit_log\<close>\<close>

definition extend_audit_log :: "legal_state \<Rightarrow> legal_state \<Rightarrow> legal_state" where
  "extend_audit_log state source_state =
     (if audit_log source_state \<noteq> []
      then state\<lparr>audit_log := audit_log state @ audit_log source_state\<rparr>
      else state)"

text \<open>
  The four blocks of \<^verbatim>\<open>process\<close> that copy a result into \<^verbatim>\<open>state\<close>, statement by
  statement: each statement reads the result as it is when the statement runs.
\<close>

definition merge_clauses :: "state_ref option \<Rightarrow> legal_state \<Rightarrow> legal_state" where
  "merge_clauses result state =
     (case result of
        None \<Rightarrow> state
      | Some ref \<Rightarrow>
          let s1 = state\<lparr>extracted_clauses := extracted_clauses (deref state ref)\<rparr>;
              s2 = s1\<lparr>clause_count := clause_count (deref s1 ref)\<rparr>
          in extend_audit_log s2 (deref s2 ref))"

definition merge_summary :: "state_ref option \<Rightarrow> legal_state \<Rightarrow> legal_state" where
  "merge_summary result state =
     (case result of
        None \<Rightarrow> state
      | Some ref \<Rightarrow>
          let s1 = state\<lparr>metadata_summary := metadata_summary (deref state ref)\<rparr>;
              s2 = s1\<lparr>document_outline := document_outline (deref s1 ref)\<rparr>;
              s3 = s2\<lparr>key_entities := key_entities (deref s2 ref)\<rparr>
          in extend_audit_log s3 (deref s3 ref))"

definition merge_risk :: "state_ref option \<Rightarrow> legal_state \<Rightarrow> legal_state" where
  "merge_risk result state =
     (case result of
        None \<Rightarrow> state
      | Some ref \<Rightarrow>
          let s1 = state\<lparr>risk_assessments := risk_assessments (deref state ref)\<rparr>;
              s2 = s1\<lparr>high_risk_count := high_risk_count (deref s1 ref)\<rparr>;
              s3 = s2\<lparr>overall_risk_score := overall_risk_score (deref s2 ref)\<rparr>;
              s4 = s3\<lparr>recommendation_trace := recommendation_trace (deref s3 ref)\<rparr>;
              s5 = s4\<lparr>context_bundle := context_bundle (deref s4 ref)\<rparr>;
              s6 = s5\<lparr>ready_for_suggestions := ready_for_suggestions (deref s5 ref)\<rparr>;
              s7 = s6\<lparr>cost_spent := cost_spent (deref s6 ref)\<rparr>;
              s8 = (if planning_notes (deref s7 ref) \<noteq> []
                    then s7\<lparr>planning_notes := planning_notes s7 @ planning_notes (deref s7 ref)\<rparr>
                    else s7);
              s9 = (if status (deref s8 ref) \<noteq> []
                    then s8\<lparr>status := status (deref s8 ref)\<rparr> else s8);
              s10 = (if errors (deref s9 ref) \<noteq> []
                     then s9\<lparr>errors := errors s9 @ errors (deref s9 ref)\<rparr> else s9)
          in extend_audit_log s10 (deref s10 ref))"

definition merge_suggestion :: "state_ref option \<Rightarrow> legal_state \<Rightarrow> legal_state" where
  "merge_suggestion result state =
     (case result of
        None \<Rightarrow> state
      | Some ref \<Rightarrow>
          let s1 = (if planning_notes (deref state ref) \<noteq> []
                    then state\<lparr>planning_notes :=
                                 planning_notes state @ planning_notes (deref state ref)\<rparr>
                    else state);
              s2 = (case adk_b_response (deref s1 ref) of
                      None \<Rightarrow> s1
                    | Some answer \<Rightarrow>
                        if truthy answer then s1\<lparr>adk_b_response := Some answer\<rparr> else s1);
              s3 = (if status (deref s2 ref) \<noteq> []
                    then s2\<lparr>status := status (deref s2 ref)\<rparr> else s2);
              s4 = (if errors (deref s3 ref) \<noteq> []
                    then s3\<lparr>errors := errors s3 @ errors (deref s3 ref)\<rparr> else s3)
          in extend_audit_log s4 (deref s4 ref))"

definition parallel_audit :: "legal_state \<Rightarrow> audit_entry" where
  "parallel_audit state =
     \<lparr>agent_name = ''ParallelInsightsAgent'', action = ''parallel_insights'',
      input_data =
        JDict [(''strategy'', JStr (processing_strategy state)),
               (''tasks'', JList [JStr ''clause_extraction'', JStr ''metadata_summary'',
                                  JStr ''risk_detection'', JStr ''suggestion_dispatch''])],
      output_data =
        JDict [(''clause_count'', JNum (real_of_int (clause_count state))),
               (''high_risk_count'', JNum (real_of_int (high_risk_count state))),
               (''ready_for_suggestions'', JBool (ready_for_suggestions state))],
      model_used = ''parallel_executor''\<rparr>"

text \<open>The line \<^verbatim>\<open>state["errors"].append(f"{label}_task: {exc}")\<close> for every failed task.\<close>

definition task_error_strings :: "(string \<times> exn) list \<Rightarrow> string list" where
  "task_error_strings task_errors = map (\<lambda>(label, exc). label @ ''_task: '' @ message exc) task_errors"

text \<open>
  \<^verbatim>\<open>ParallelInsightsAgent.process\<close>: the state it returns, and what ran. No statement of
  its \<^verbatim>\<open>try\<close> block raises in this model (the tasks' exceptions are caught where the
  tasks run), so its \<^verbatim>\<open>except\<close> clause, which appends to the errors and leaves the
  status alone, is not reached.
\<close>

definition process :: "bool \<Rightarrow> stage_agents \<Rightarrow> legal_state \<Rightarrow> legal_state \<times> sched_event list" where
  "process force_sequential agents state =
     (let (res, task_errors, state0, trace) = run_parallel_execution force_sequential agents state;
          s1 = state0\<lparr>errors := errors state0 @ task_error_strings task_errors\<rparr>;
          s2 = merge_clauses (clauses res) s1;
          s3 = merge_summary (summary res) s2;
          s4 = merge_risk (risk res) s3;
          s5 = merge_suggestion (suggestion res) s4
      in (s5\<lparr>audit_log := audit_log s5 @ [parallel_audit s5]\<rparr>, trace))"


section \<open>The workflow: \<^verbatim>\<open>src/graph/workflow.py\<close>\<close>

text \<open>The state \<^verbatim>\<open>run_adk_a\<close> starts from.\<close>

definition initial_state :: "string \<Rightarrow> string option \<Rightarrow> string option \<Rightarrow> string \<Rightarrow> legal_state" where
  "initial_state doc_id doc_path doc_text doc_type =
     \<lparr>document_id = doc_id, document_path = doc_path,
      document_text = (case doc_text of None \<Rightarrow> [] | Some t \<Rightarrow> t),
      document_type = doc_type, parsed_text = [], metadata = JDict [], page_count = 0,
      document_category = doc_type, metadata_summary = JDict [], key_entities = [],
      document_outline = [], extracted_clauses = [], clause_count = 0,
      risk_assessments = [], high_risk_count = 0, overall_risk_score = 0,
      document_complexity = 0, use_complex_model = False,
      processing_strategy = ''standard'', model_plan = JDict [], cost_budget = 0,
      cost_spent = 0, planning_notes = [], parallel_tasks = [],
      ready_for_suggestions = False, adk_b_response = None, context_bundle = JDict [],
      audit_log = [], recommendation_trace = [], errors = [], status = ''pending''\<rparr>"





text \<open>
  For the examples: a downstream service that cannot be reached, and a state as the
  ingestion leaves it (status \<open>processing\<close>).
\<close>

definition unreachable :: dispatch_env where
  "unreachable =
     \<lparr>ENABLE_A2A_DISPATCH = True, MCP_SERVER_B_URL = ''http://localhost:8002/'',
      post = (\<lambda>endpoint payload timeout attempt. RequestException ''connection refused'')\<rparr>"

definition processing_state :: legal_state where
  "processing_state =
     (initial_state ''doc-1'' None (Some ''text'') ''contract'')\<lparr>status := ''processing''\<rparr>"


text \<open>
  The statuses that end a run.
\<close>

definition terminal_statuses :: "string set" where
  "terminal_statuses = {''completed'', ''completed_with_warning'', ''error''}"

text \<open>
  An agent that leaves alone the fields that the clause, summary and risk stages own.
\<close>

definition keeps_upstream_fields :: "(legal_state \<Rightarrow> exn + legal_state) \<Rightarrow> bool" where
  "keeps_upstream_fields agent =
     (\<forall>s s'. agent s = Inr s' \<longrightarrow>
        extracted_clauses s' = extracted_clauses s \<and> clause_count s' = clause_count s
        \<and> metadata_summary s' = metadata_summary s
        \<and> document_outline s' = document_outline s \<and> key_entities s' = key_entities s
        \<and> risk_assessments s' = risk_assessments s
        \<and> high_risk_count s' = high_risk_count s
        \<and> overall_risk_score s' = overall_risk_score s)"

text \<open>
  The task with this label raised this exception: the pair is in the list of errors
  that \<^verbatim>\<open>_run_parallel_execution\<close> returns.
\<close>

definition task_failed :: "bool \<Rightarrow> stage_agents \<Rightarrow> legal_state \<Rightarrow> string \<Rightarrow> exn \<Rightarrow> bool" where
  "task_failed force_sequential agents state label exc =
     ((label, exc) \<in> set (fst (snd (run_parallel_execution force_sequential agents state))))"

text \<open>
  A state that the risk agent or the dispatch agent returns for some input.
\<close>

definition returned_by :: "stage_agents \<Rightarrow> legal_state \<Rightarrow> bool" where
  "returned_by agents s' =
     ((\<exists>s. risk_agent agents s = Inr s') \<or> (\<exists>s. dispatch_agent agents s = Inr s'))"

text \<open>
  The dictionary \<^verbatim>\<open>merged_state\<close> that \<^verbatim>\<open>_run_risk_task\<close> gives to the risk agent in a
  serialized run: a copy of \<^verbatim>\<open>state\<close> with the clause list and the clause count of
  \<^verbatim>\<open>results["clauses"]\<close>, which is \<^verbatim>\<open>state\<close> itself when the clause task has failed
  (the copy is then equal to \<^verbatim>\<open>state\<close>).
\<close>

definition merged_state :: "stage_agents \<Rightarrow> legal_state \<Rightarrow> legal_state" where
  "merged_state agents state =
     (case run_clause_task agents state of
        Inr c \<Rightarrow> state\<lparr>extracted_clauses := extracted_clauses c,
                       clause_count := clause_count c\<rparr>
      | Inl e \<Rightarrow> state)"

text \<open>
  For the examples: an exception, agents that raise it in the stages listed (and otherwise
  return the state they are given, the dispatch agent being \<^verbatim>\<open>A2ADispatchAgent\<close>), and
  a workflow whose planning node raises it.
\<close>

definition boom :: exn where
  "boom = Exn None False ''boom''"

definition agents_failing :: "string list \<Rightarrow> dispatch_env \<Rightarrow> stage_agents" where
  "agents_failing labels env =
     \<lparr>clause_agent = (\<lambda>s. if ''clauses'' \<in> set labels then Inl boom else Inr s),
      summary_agent = (\<lambda>s. if ''summary'' \<in> set labels then Inl boom else Inr s),
      risk_agent = (\<lambda>s. if ''risk'' \<in> set labels then Inl boom else Inr s),
      dispatch_agent =
        (if ''suggestion'' \<in> set labels then (\<lambda>s. Inl boom)
         else (\<lambda>s. Inr (fst (dispatch_process env s))))\<rparr>"



section \<open>The two rate limiters\<close>

text \<open>
  Both modules keep the timestamp of the last request and a deque of the timestamps of the
  recent requests, and both drop the timestamps older than 60 seconds with the loop
  \<^verbatim>\<open>while HISTORY and HISTORY[0] < window_start: HISTORY.popleft()\<close>.
\<close>

definition popleft_expired :: "real \<Rightarrow> real list \<Rightarrow> real list" where
  "popleft_expired window_start history = dropWhile (\<lambda>ts. ts < window_start) history"

text \<open>
  The clock. \<^verbatim>\<open>time.time()\<close> is taken to be monotone, and \<^verbatim>\<open>time.sleep(d)\<close> to let
  at least \<open>d\<close> seconds pass: a reading of the clock is the earliest possible value plus
  a delay that the environment chooses, which a run assumes not to be negative. Two
  readings may be equal.
\<close>

subsection \<open>\<^verbatim>\<open>_respect_rate_limits\<close> of \<^verbatim>\<open>src/utils/llm.py\<close>\<close>

text \<open>
  \<^verbatim>\<open>REQUEST_HISTORY = deque(maxlen=max(LLM_RPM_LIMIT, 10))\<close>: appending to a full deque
  drops its first element.
\<close>

definition deque_append :: "nat \<Rightarrow> real list \<Rightarrow> real \<Rightarrow> real list" where
  "deque_append maxlen history ts = drop (length history + 1 - maxlen) (history @ [ts])"

record llm_limiter =
  LAST_REQUEST_TS :: real
  REQUEST_HISTORY :: "real list"

definition initial_llm_limiter :: llm_limiter where
  "initial_llm_limiter = \<lparr>LAST_REQUEST_TS = 0, REQUEST_HISTORY = []\<rparr>"

text \<open>
  The delays before the four readings of the clock in one call: at entry, after the sleep
  for the interval, after the sleep for the window, and for the timestamp.
\<close>

record call_delays =
  at_entry :: real
  after_interval_sleep :: real
  after_window_sleep :: real
  at_stamp :: real

definition delays_ok :: "call_delays \<Rightarrow> bool" where
  "delays_ok d =
     (0 \<le> at_entry d \<and> 0 \<le> after_interval_sleep d \<and> 0 \<le> after_window_sleep d
      \<and> 0 \<le> at_stamp d)"

text \<open>
  \<^verbatim>\<open>_respect_rate_limits\<close>, given the two environment variables, from the last reading
  of the clock and the state of the module to the reading for the timestamp and the new
  state. The history is not empty where its first element is read, for
  \<^verbatim>\<open>LLM_RPM_LIMIT\<close> is at least 1.
\<close>

definition respect_rate_limits ::
  "int option \<Rightarrow> real option \<Rightarrow> call_delays \<Rightarrow> real \<times> llm_limiter \<Rightarrow> real \<times> llm_limiter" where
  "respect_rate_limits rpm_env interval_env d w =
     (let rpm = LLM_RPM_LIMIT rpm_env;
          min_interval = LLM_MIN_CALL_INTERVAL interval_env rpm;
          maxlen = nat (max rpm 10);
          (clock, limiter) = w;
          now1 = clock + at_entry d;
          wait_for_interval = LAST_REQUEST_TS limiter + min_interval - now1;
          now2 = (if wait_for_interval > 0
                  then now1 + wait_for_interval + after_interval_sleep d else now1);
          h1 = popleft_expired (now2 - 60) (REQUEST_HISTORY limiter);
          (now3, h2) =
            (if int (length h1) \<ge> rpm then
               let wait_for_window = 60 - (now2 - hd h1)
               in if wait_for_window > 0 then
                    let now = now2 + wait_for_window + after_window_sleep d
                    in (now, popleft_expired (now - 60) h1)
                  else (now2, h1)
             else (now2, h1));
          stamp = now3 + at_stamp d
      in (stamp, \<lparr>LAST_REQUEST_TS = stamp, REQUEST_HISTORY = deque_append maxlen h2 stamp\<rparr>))"

text \<open>
  The timestamps recorded by a sequence of calls, one after the other (the callers hold
  \<^verbatim>\<open>REQUEST_LOCK\<close>), in the order of the calls.
\<close>

fun llm_grants ::
  "int option \<Rightarrow> real option \<Rightarrow> call_delays list \<Rightarrow> real \<times> llm_limiter \<Rightarrow> real list" where
  "llm_grants rpm_env interval_env [] w = []"
| "llm_grants rpm_env interval_env (d # ds) w =
     (let w' = respect_rate_limits rpm_env interval_env d w
      in LAST_REQUEST_TS (snd w') # llm_grants rpm_env interval_env ds w')"

subsection \<open>\<^verbatim>\<open>_block_until_slot_sync\<close> of \<^verbatim>\<open>src/utils/global_llm_rate_limiter.py\<close>\<close>

text \<open>
  \<^verbatim>\<open>_compute_wait\<close>, which also drops the expired timestamps. \<^verbatim>\<open>_RPM_LIMIT\<close> is at
  least 1 in every state of the module (60 at import, \<^verbatim>\<open>max(int(rpm_limit), 1)\<close> once
  installed), so the history is not empty where its first element is read.
\<close>

definition compute_wait :: "real \<Rightarrow> limiter_globals \<Rightarrow> real \<times> limiter_globals" where
  "compute_wait now g =
     (let wait_interval = (g_LAST_REQUEST_TS g + g_MIN_INTERVAL g) - now;
          window_start = now - 60;
          h = popleft_expired window_start (g_REQUEST_HISTORY g);
          wait_window =
            (if int (length h) \<ge> g_RPM_LIMIT g then max 0 (60 - (now - hd h)) else 0)
      in (max (max wait_interval wait_window) 0, g\<lparr>g_REQUEST_HISTORY := h\<rparr>))"

definition record_request :: "real \<Rightarrow> limiter_globals \<Rightarrow> limiter_globals" where
  "record_request ts g =
     g\<lparr>g_LAST_REQUEST_TS := ts, g_REQUEST_HISTORY := g_REQUEST_HISTORY g @ [ts]\<rparr>"

text \<open>
  One pass through the body of the loop of \<^verbatim>\<open>_block_until_slot_sync\<close> (and of
  \<^verbatim>\<open>_block_until_slot_async\<close>, which has the same body) while the caller holds
  \<^verbatim>\<open>_LOCK\<close>: it reads the clock, computes the wait and, when there is none, reads the
  clock again and records the request. It gives the wait, the last reading of the clock
  and the new state; the caller has its slot when the wait is not positive, and otherwise
  sleeps outside the lock and makes another pass. The two delays are those before the
  two readings.
\<close>

definition slot_pass ::
  "real \<times> real \<Rightarrow> real \<times> limiter_globals \<Rightarrow> real \<times> real \<times> limiter_globals" where
  "slot_pass d w =
     (let (clock, g) = w;
          now = clock + fst d;
          (wait_for, g1) = compute_wait now g
      in if wait_for \<le> 0
         then (wait_for, now + snd d, record_request (now + snd d) g1)
         else (wait_for, now, g1))"

text \<open>
  The timestamps recorded by a sequence of passes, in their order. The passes of all
  callers, threads and coroutines, are in one sequence, for the lock lets one pass run at a
  time; between two passes any time may go by.
\<close>

fun global_grants :: "(real \<times> real) list \<Rightarrow> real \<times> limiter_globals \<Rightarrow> real list" where
  "global_grants [] w = []"
| "global_grants (d # ds) w =
     (let (wait_for, clock', g') = slot_pass d w
      in (if wait_for \<le> 0 then [g_LAST_REQUEST_TS g'] else [])
         @ global_grants ds (clock', g'))"

subsection \<open>What the limiters are to guarantee\<close>

text \<open>
  No two of the timestamps differ by less than the interval; and the number of timestamps
  in the 60 seconds that end at \<open>t\<close>, the instant 60 seconds before \<open>t\<close> excluded and \<open>t\<close>
  included, is at most the limit, for every \<open>t\<close>. The closed variant counts the instant 60
  seconds before \<open>t\<close> too.
\<close>

definition spaced :: "real \<Rightarrow> real list \<Rightarrow> bool" where
  "spaced min_interval ts =
     (\<forall>i j. i < length ts \<and> j < length ts \<and> i \<noteq> j \<longrightarrow> min_interval \<le> \<bar>ts ! i - ts ! j\<bar>)"

definition window_count :: "real \<Rightarrow> real list \<Rightarrow> nat" where
  "window_count t ts = length (filter (\<lambda>x. t - 60 < x \<and> x \<le> t) ts)"

definition closed_window_count :: "real \<Rightarrow> real list \<Rightarrow> nat" where
  "closed_window_count t ts = length (filter (\<lambda>x. t - 60 \<le> x \<and> x \<le> t) ts)"

definition window_bounded :: "int \<Rightarrow> real list \<Rightarrow> bool" where
  "window_bounded rpm ts = (\<forall>t. int (window_count t ts) \<le> rpm)"


text \<open>
  For the proofs. The history is the end of the list of all recorded timestamps, and the
  timestamps before it are older than the bound, unless the deque is full.
\<close>

definition covers :: "nat option \<Rightarrow> real \<Rightarrow> real list \<Rightarrow> real list \<Rightarrow> bool" where
  "covers maxlen bound grants history =
     (\<exists>older. grants = older @ history
        \<and> ((\<forall>g\<in>set older. g < bound) \<or> maxlen = Some (length history)))"

text \<open>
  The invariant of both limiters, between two calls or passes: the recorded timestamps
  are spaced by the interval and none is later than the last one, the window bound holds,
  the history covers the 60 seconds before the last reading of the clock, and a deque with
  a maximal length is within it and can hold as many timestamps as the limit.
\<close>

definition limiter_inv ::
  "real \<Rightarrow> int \<Rightarrow> nat option \<Rightarrow> real \<Rightarrow> real \<Rightarrow> real list \<Rightarrow> real list \<Rightarrow> bool" where
  "limiter_inv min_interval rpm maxlen clock last_ts history grants =
     (sorted_wrt (\<lambda>a b. a + min_interval \<le> b) grants
      \<and> (\<forall>g\<in>set grants. g \<le> last_ts)
      \<and> window_bounded rpm grants
      \<and> covers maxlen (clock - 60) grants history
      \<and> (\<forall>n. maxlen = Some n \<longrightarrow> length history \<le> n \<and> rpm \<le> int n))"

text \<open>
  For the examples: a call that finds the clock advanced by \<open>x\<close> seconds and then
  reads it without further delay.
\<close>

definition entry_delay :: "real \<Rightarrow> call_delays" where
  "entry_delay x =
     \<lparr>at_entry = x, after_interval_sleep = 0, after_window_sleep = 0, at_stamp = 0\<rparr>"


section \<open>Properties of the configuration and of the installation\<close>

lemma install_installed_id:
  "g_PATCH_INSTALLED g \<Longrightarrow> install_global_llm_rate_limiter mi rpm g = g"
  by (simp add: install_global_llm_rate_limiter_def)

lemma install_all_installed_id:
  "g_PATCH_INSTALLED g \<Longrightarrow> install_all cs g = g"
  by (induction cs arbitrary: g) (auto simp: install_installed_id)

text \<open>
  Claim C9, as the code has it: in \<^verbatim>\<open>legal-doc-processor-a\<close> the default minimum call
  interval is \<open>max(60 / rpmLimit, 8)\<close> seconds for whatever value the environment gives
  the limit (it is clamped to at least 1), so it lies between 8 and 60 seconds; the floor
  of 15 seconds is the one of \<^verbatim>\<open>legal-compliance-advisor-b\<close>.
\<close>

theorem default_min_call_interval:
  "LLM_MIN_CALL_INTERVAL None (LLM_RPM_LIMIT env) = max (60 / real_of_int (LLM_RPM_LIMIT env)) 8
   \<and> 8 \<le> LLM_MIN_CALL_INTERVAL None (LLM_RPM_LIMIT env)
   \<and> LLM_MIN_CALL_INTERVAL None (LLM_RPM_LIMIT env) \<le> 60
   \<and> LLM_MIN_CALL_INTERVAL_b None (LLM_RPM_LIMIT_b env)
       = max (60 / real_of_int (LLM_RPM_LIMIT_b env)) 15"
proof -
  have "1 \<le> LLM_RPM_LIMIT env"
    by (simp add: LLM_RPM_LIMIT_def)
  then have "1 \<le> real_of_int (LLM_RPM_LIMIT env)"
    by simp
  then have "60 / real_of_int (LLM_RPM_LIMIT env) \<le> 60"
    by (simp add: divide_le_eq)
  then show ?thesis
    by (simp add: LLM_MIN_CALL_INTERVAL_def LLM_MIN_CALL_INTERVAL_b_def)
qed

text \<open>
  With the default limit of 8 requests per minute the default interval is 8 seconds,
  not \<open>max(60/8, 15) = 15\<close>.
\<close>

theorem default_min_call_interval_not_15:
  "LLM_MIN_CALL_INTERVAL None (LLM_RPM_LIMIT None) = 8
   \<and> LLM_MIN_CALL_INTERVAL None (LLM_RPM_LIMIT None)
       \<noteq> max (60 / real_of_int (LLM_RPM_LIMIT None)) 15"
  by (simp add: LLM_MIN_CALL_INTERVAL_def LLM_RPM_LIMIT_def)

text \<open>
  Claim C10: once a call of \<^verbatim>\<open>install_global_llm_rate_limiter\<close> has installed the
  patch, every later sequence of calls, with any arguments, leaves the module's globals
  and the patched classes as that first call left them.
\<close>

theorem install_idempotent:
  "g_PATCH_INSTALLED (install_global_llm_rate_limiter mi rpm g) \<Longrightarrow>
     install_all cs (install_global_llm_rate_limiter mi rpm g)
       = install_global_llm_rate_limiter mi rpm g"
  by (rule install_all_installed_id)

theorem install_idempotent_witness:
  "g_PATCH_INSTALLED (install_global_llm_rate_limiter 8 8
       (initial_globals True (Some Original) (Some Original)))
   \<and> install_all [(0, 1000), (30, 2)] (install_global_llm_rate_limiter 8 8
       (initial_globals True (Some Original) (Some Original)))
     = \<lparr>g_REQUEST_HISTORY = [], g_LAST_REQUEST_TS = 0, g_MIN_INTERVAL = 8, g_RPM_LIMIT = 8,
        g_PATCH_INSTALLED = True, genai_importable = True,
        Models = Some Wrapped, AsyncModels = Some Wrapped\<rparr>"
proof -
  have h: "g_PATCH_INSTALLED (install_global_llm_rate_limiter 8 8
       (initial_globals True (Some Original) (Some Original)))"
    by (simp add: install_global_llm_rate_limiter_def initial_globals_def)
  show ?thesis
    using h install_idempotent [OF h, of "[(0, 1000), (30, 2)]"]
    by (simp add: install_global_llm_rate_limiter_def initial_globals_def)
qed

section \<open>Properties of the retry loop and of the response cache\<close>

lemma invocations_append: "invocations (xs @ ys) = invocations xs + invocations ys"
  by (simp add: invocations_def)

lemma acquisitions_append: "acquisitions (xs @ ys) = acquisitions xs + acquisitions ys"
  by (simp add: acquisitions_def)

lemma invocations_simps:
  "invocations [] = 0"
  "invocations (Acquire # es) = invocations es"
  "invocations (Generate m p # es) = Suc (invocations es)"
  "invocations (Sleep d # es) = invocations es"
  by (simp_all add: invocations_def)

lemma acquisitions_simps:
  "acquisitions [] = 0"
  "acquisitions (Acquire # es) = Suc (acquisitions es)"
  "acquisitions (Generate m p # es) = acquisitions es"
  "acquisitions (Sleep d # es) = acquisitions es"
  by (simp_all add: acquisitions_def)

lemmas count_simps = invocations_append acquisitions_append invocations_simps acquisitions_simps

lemma invocations_backoff_schedule: "invocations (backoff_schedule m p b a k) = k"
  by (induction m p b a k rule: backoff_schedule.induct) (simp_all add: count_simps)

lemma acquisitions_backoff_schedule: "acquisitions (backoff_schedule m p b a k) = k"
  by (induction m p b a k rule: backoff_schedule.induct) (simp_all add: count_simps)

lemma attempt_loop_done:
  "attempts < attempt \<Longrightarrow>
   snd (attempt_loop env m p c attempts b attempt le w) = w"
  by (subst attempt_loop.simps) (simp split: option.splits)

lemma attempt_loop_step:
  "attempt \<le> attempts \<Longrightarrow>
   attempt_loop env m p c attempts b attempt le w =
     (case generate_content env m p (invocations (events w)) of
        Inr r \<Rightarrow>
          (Inr r,
           if c then w\<lparr>events := events w @ [Acquire, Generate m p],
                       RESPONSE_CACHE := (RESPONSE_CACHE w)(cache_key env p \<mapsto> r)\<rparr>
           else w\<lparr>events := events w @ [Acquire, Generate m p]\<rparr>)
      | Inl exc \<Rightarrow>
          if attempts \<le> attempt \<or> \<not> is_retryable (client_error_is_exception env) exc
          then (Inl exc, w\<lparr>events := events w @ [Acquire, Generate m p]\<rparr>)
          else if b ^ nat attempt < 0
          then (Inl (Exn None False ''sleep length must be non-negative''),
                w\<lparr>events := events w @ [Acquire, Generate m p]\<rparr>)
          else attempt_loop env m p c attempts b (attempt + 1) (Some exc)
                 (w\<lparr>events := events w @ [Acquire, Generate m p, Sleep (b ^ nat attempt)]\<rparr>))"
  by (subst attempt_loop.simps) (simp add: Let_def count_simps split: sum.splits)

lemma attempt_loop_events:
  "n = nat (attempts + 1 - attempt) \<Longrightarrow> 1 \<le> attempt \<Longrightarrow>
   \<exists>k. (attempt \<le> attempts \<longrightarrow> 0 < k) \<and>
       events (snd (attempt_loop env m p c attempts b attempt le w))
        = events w @ backoff_schedule m p b (nat attempt) k"
proof (induction n arbitrary: attempt le w)
  case 0
  then have "attempts < attempt" by simp
  then have "events (snd (attempt_loop env m p c attempts b attempt le w))
        = events w @ backoff_schedule m p b (nat attempt) 0"
    by (simp add: attempt_loop_done)
  with \<open>attempts < attempt\<close> show ?case by fastforce
next
  case (Suc n)
  then have le: "attempt \<le> attempts" by simp
  let ?one = "events w @ backoff_schedule m p b (nat attempt) (Suc 0)"
  show ?case
  proof (cases "generate_content env m p (invocations (events w))")
    case (Inr r)
    then have "events (snd (attempt_loop env m p c attempts b attempt le w)) = ?one"
      by (subst attempt_loop_step [OF le]) simp
    then show ?thesis by blast
  next
    case (Inl exc)
    show ?thesis
    proof (cases "attempts \<le> attempt \<or> \<not> is_retryable (client_error_is_exception env) exc
                  \<or> b ^ nat attempt < 0")
      case True
      then have "events (snd (attempt_loop env m p c attempts b attempt le w)) = ?one"
        using Inl by (subst attempt_loop_step [OF le]) auto
      then show ?thesis by blast
    next
      case False
      let ?w = "w\<lparr>events := events w @ [Acquire, Generate m p, Sleep (b ^ nat attempt)]\<rparr>"
      from False have step: "attempt_loop env m p c attempts b attempt le w
          = attempt_loop env m p c attempts b (attempt + 1) (Some exc) ?w"
        using Inl by (subst attempt_loop_step [OF le]) auto
      from False Suc.prems have "n = nat (attempts + 1 - (attempt + 1))" "1 \<le> attempt + 1"
        "attempt + 1 \<le> attempts"
        by simp_all
      from Suc.IH [OF this(1,2), of "Some exc" ?w] this(3)
      obtain k where k: "0 < k"
        "events (snd (attempt_loop env m p c attempts b (attempt + 1) (Some exc) ?w))
           = events ?w @ backoff_schedule m p b (nat (attempt + 1)) k"
        by blast
      from k(1) obtain k' where k': "k = Suc k'" by (cases k) simp_all
      have "nat (attempt + 1) = Suc (nat attempt)"
        using Suc.prems by simp
      with k k' step
      have "events (snd (attempt_loop env m p c attempts b attempt le w))
           = events w @ backoff_schedule m p b (nat attempt) (Suc (Suc k'))"
        by simp
      then show ?thesis by blast
    qed
  qed
qed


lemma attempt_loop_all_fail:
  assumes fails: "\<forall>k. \<exists>e. generate_content env m p k = Inl e
                      \<and> is_retryable (client_error_is_exception env) e"
    and b: "0 \<le> b"
  shows "n = nat (attempts - attempt) \<Longrightarrow> 1 \<le> attempt \<Longrightarrow> attempt \<le> attempts \<Longrightarrow>
     attempt_loop env m p c attempts b attempt le w =
       (generate_content env m p (invocations (events w) + n),
        w\<lparr>events := events w @ backoff_schedule m p b (nat attempt) (Suc n)\<rparr>)"
proof (induction n arbitrary: attempt le w)
  case 0
  then have eq: "attempts \<le> attempt" by simp
  from fails obtain e where e: "generate_content env m p (invocations (events w)) = Inl e"
    by blast
  show ?case
    using e eq by (subst attempt_loop_step [OF 0(3)]) simp
next
  case (Suc n)
  from fails obtain e where e: "generate_content env m p (invocations (events w)) = Inl e"
    "is_retryable (client_error_is_exception env) e"
    by blast
  let ?w = "w\<lparr>events := events w @ [Acquire, Generate m p, Sleep (b ^ nat attempt)]\<rparr>"
  from Suc.prems have lt: "\<not> attempts \<le> attempt" by simp
  from b have nn: "\<not> b ^ nat attempt < 0" by (simp add: not_less)
  have step: "attempt_loop env m p c attempts b attempt le w
          = attempt_loop env m p c attempts b (attempt + 1) (Some e) ?w"
    using e lt nn by (subst attempt_loop_step [OF Suc.prems(3)]) auto
  from Suc.prems have "n = nat (attempts - (attempt + 1))" "1 \<le> attempt + 1"
    "attempt + 1 \<le> attempts"
    by simp_all
  note ih = Suc.IH [OF this, of "Some e" ?w]
  have "nat (attempt + 1) = Suc (nat attempt)"
    using Suc.prems by simp
  with ih step show ?case
    by (simp add: count_simps)
qed

lemma attempt_loop_cached:
  "n = nat (attempts + 1 - attempt) \<Longrightarrow>
   attempt_loop env m p True attempts b attempt le w = (Inr r, w') \<Longrightarrow>
   RESPONSE_CACHE w' (cache_key env p) = Some r"
proof (induction n arbitrary: attempt le w)
  case 0
  then have "attempts < attempt" by simp
  with 0(2) show ?case
    by (subst (asm) attempt_loop.simps) (simp split: option.splits)
next
  case (Suc n)
  then have le: "attempt \<le> attempts" by simp
  from Suc.prems(1) have n: "n = nat (attempts + 1 - (attempt + 1))" by simp
  from Suc.prems(2) show ?case
    by (subst (asm) attempt_loop_step [OF le])
       (auto split: sum.splits if_splits dest: Suc.IH [OF n])
qed

lemma backoff_schedule_sleeps:
  "i < length (backoff_schedule m p b a k) \<Longrightarrow> backoff_schedule m p b a k ! i = Sleep d \<Longrightarrow>
   d = b ^ (a + invocations (take i (backoff_schedule m p b a k)) - 1)"
proof (induction m p b a k arbitrary: i rule: backoff_schedule.induct)
  case (1 m p b a)
  then show ?case by simp
next
  case (2 m p b a)
  then show ?case by (cases i) (auto simp: less_Suc_eq)
next
  case (3 m p b a k)
  let ?rest = "backoff_schedule m p b (Suc a) (Suc k)"
  consider "i = 0" | "i = 1" | "i = 2" | "3 \<le> i"
    by linarith
  then show ?case
  proof cases
    case 1 with 3 show ?thesis by simp
  next
    case 2 with 3 show ?thesis by simp
  next
    case 3 with "3.prems" show ?thesis by (simp add: count_simps numeral_2_eq_2)
  next
    case ge: 4
    then obtain j where 4: "i = 3 + j"
      using le_Suc_ex by blast
    with "3.prems" have "j < length ?rest" "?rest ! j = Sleep d"
      by (simp_all add: numeral_3_eq_3)
    from "3.IH" [OF this] have "d = b ^ (Suc a + invocations (take j ?rest) - 1)" .
    with 4 show ?thesis by (simp add: count_simps numeral_3_eq_3)
  qed
qed

text \<open>
  Claim C2: a call whose attempt budget is at least 1 and which finds no cached response
  calls the model exactly as many times as the budget says when every call fails with a
  retryable error (the delay not being negative), and raises the error of the last call;
  when the first call fails with an error that is not retryable, the model is called
  exactly once and that error is raised.
\<close>

theorem retry_attempt_bound:
  assumes n: "1 \<le> attempts_of env max_attempts"
    and miss: "enable_cache \<longrightarrow> RESPONSE_CACHE w (cache_key env prompt) = None"
  shows "(0 \<le> base_delay \<and>
          (\<forall>k. \<exists>e. generate_content env model prompt k = Inl e
                    \<and> is_retryable (client_error_is_exception env) e)
          \<longrightarrow> (\<exists>w'. generate_with_retry env model prompt max_attempts base_delay enable_cache w
                      = (generate_content env model prompt
                           (invocations (events w) + nat (attempts_of env max_attempts) - 1), w')
                    \<and> invocations (events w')
                      = invocations (events w) + nat (attempts_of env max_attempts)))
       \<and> (\<forall>e. generate_content env model prompt (invocations (events w)) = Inl e
                \<and> \<not> is_retryable (client_error_is_exception env) e
          \<longrightarrow> (\<exists>w'. generate_with_retry env model prompt max_attempts base_delay enable_cache w
                      = (Inl e, w')
                    \<and> invocations (events w') = invocations (events w) + 1))"
proof (intro conjI impI allI)
  let ?a = "attempts_of env max_attempts"
  have gwr: "generate_with_retry env model prompt max_attempts base_delay enable_cache w
      = attempt_loop env model prompt enable_cache ?a base_delay 1 None w"
    using miss by (simp add: generate_with_retry_def)
  {
    assume h: "0 \<le> base_delay \<and>
          (\<forall>k. \<exists>e. generate_content env model prompt k = Inl e
                    \<and> is_retryable (client_error_is_exception env) e)"
    have nat_eq: "Suc (nat (?a - 1)) = nat ?a"
      using n by simp
    have "attempt_loop env model prompt enable_cache ?a base_delay 1 None w =
       (generate_content env model prompt (invocations (events w) + nat (?a - 1)),
        w\<lparr>events := events w @ backoff_schedule model prompt base_delay (nat 1) (Suc (nat (?a - 1)))\<rparr>)"
      using h n by (intro attempt_loop_all_fail) simp_all
    moreover have "invocations (events w) + nat (?a - 1) = invocations (events w) + nat ?a - 1"
      using n by simp
    ultimately show "\<exists>w'. generate_with_retry env model prompt max_attempts base_delay enable_cache w
                      = (generate_content env model prompt
                           (invocations (events w) + nat ?a - 1), w')
                    \<and> invocations (events w') = invocations (events w) + nat ?a"
      using gwr nat_eq by (simp add: count_simps invocations_backoff_schedule)
  }
  {
    fix e
    assume h: "generate_content env model prompt (invocations (events w)) = Inl e
                \<and> \<not> is_retryable (client_error_is_exception env) e"
    have "attempt_loop env model prompt enable_cache ?a base_delay 1 None w
        = (Inl e, w\<lparr>events := events w @ [Acquire, Generate model prompt]\<rparr>)"
      using h by (subst attempt_loop_step [OF n]) simp
    then show "\<exists>w'. generate_with_retry env model prompt max_attempts base_delay enable_cache w
                      = (Inl e, w')
                    \<and> invocations (events w') = invocations (events w) + 1"
      using gwr by (simp add: count_simps)
  }
qed

theorem retry_attempt_bound_witness:
  "(\<exists>w'. generate_with_retry (example_env (\<lambda>m p k. Inl (Exn (Some 503) False ''unavailable'')))
            ''gemini'' ''prompt'' (Some 4) 3 True empty_world
          = (Inl (Exn (Some 503) False ''unavailable''), w')
        \<and> invocations (events w') = 4)
   \<and> (\<exists>w'. generate_with_retry (example_env (\<lambda>m p k. Inl (Exn (Some 400) False ''bad request'')))
            ''gemini'' ''prompt'' (Some 4) 3 True empty_world
          = (Inl (Exn (Some 400) False ''bad request''), w')
        \<and> invocations (events w') = 1)"
proof -
  let ?e1 = "example_env (\<lambda>m p k. Inl (Exn (Some 503) False ''unavailable''))"
  let ?e2 = "example_env (\<lambda>m p k. Inl (Exn (Some 400) False ''bad request''))"
  have a: "1 \<le> attempts_of ?e1 (Some 4)" "1 \<le> attempts_of ?e2 (Some 4)"
    by (simp_all add: attempts_of_def)
  have m: "True \<longrightarrow> RESPONSE_CACHE empty_world (cache_key ?e1 ''prompt'') = None"
    "True \<longrightarrow> RESPONSE_CACHE empty_world (cache_key ?e2 ''prompt'') = None"
    by (simp_all add: empty_world_def)
  show ?thesis
    using retry_attempt_bound [OF a(1) m(1), where base_delay = 3 and model = "''gemini''"]
      retry_attempt_bound [OF a(2) m(2), where base_delay = 3 and model = "''gemini''"]
    by (simp add: example_env_def attempts_of_def empty_world_def is_retryable_def
        RETRYABLE_STATUS_def count_simps)
qed

text \<open>
  Claim C6: of two cached calls with the same model and prompt made one after the other,
  the first finding no cached response and succeeding on its first attempt, the first
  acquires the rate limiter once and calls the model once, the second does neither (it
  leaves the world as it is), and both return the same response.
\<close>

theorem cache_idempotence:
  assumes first: "1 \<le> attempts_of env max_attempts"
    and miss: "RESPONSE_CACHE w (cache_key env prompt) = None"
    and ok: "generate_content env model prompt (invocations (events w)) = Inr r"
  shows "\<exists>w1. generate_with_retry env model prompt max_attempts base_delay True w = (Inr r, w1)
            \<and> generate_with_retry env model prompt max_attempts' base_delay' True w1 = (Inr r, w1)
            \<and> events w1 = events w @ [Acquire, Generate model prompt]
            \<and> acquisitions (events w1) = acquisitions (events w) + 1
            \<and> invocations (events w1) = invocations (events w) + 1"
proof -
  let ?w1 = "w\<lparr>events := events w @ [Acquire, Generate model prompt],
               RESPONSE_CACHE := (RESPONSE_CACHE w)(cache_key env prompt \<mapsto> r)\<rparr>"
  have "attempt_loop env model prompt True (attempts_of env max_attempts) base_delay 1 None w
      = (Inr r, ?w1)"
    using ok by (subst attempt_loop_step [OF first]) simp
  then have 1: "generate_with_retry env model prompt max_attempts base_delay True w = (Inr r, ?w1)"
    using miss by (simp add: generate_with_retry_def)
  have 2: "generate_with_retry env model prompt max_attempts' base_delay' True ?w1 = (Inr r, ?w1)"
    by (simp add: generate_with_retry_def)
  show ?thesis
    using 1 2 by (simp add: count_simps)
qed

theorem cache_idempotence_witness:
  "\<exists>w1. generate_with_retry (example_env (\<lambda>m p k. Inr (''answer to '' @ p)))
            ''gemini'' ''prompt'' None 3 True empty_world = (Inr ''answer to prompt'', w1)
      \<and> generate_with_retry (example_env (\<lambda>m p k. Inr (''answer to '' @ p)))
            ''gemini'' ''prompt'' (Some 2) 7 True w1 = (Inr ''answer to prompt'', w1)
      \<and> events w1 = [Acquire, Generate ''gemini'' ''prompt'']
      \<and> acquisitions (events w1) = 1
      \<and> invocations (events w1) = 1"
proof -
  let ?e = "example_env (\<lambda>m p k. Inr (''answer to '' @ p))"
  have a: "1 \<le> attempts_of ?e None"
    by (simp add: attempts_of_def example_env_def)
  have m: "RESPONSE_CACHE empty_world (cache_key ?e ''prompt'') = None"
    by (simp add: empty_world_def)
  have ok: "generate_content ?e ''gemini'' ''prompt'' (invocations (events empty_world))
      = Inr ''answer to prompt''"
    by (simp add: example_env_def)
  show ?thesis
    using cache_idempotence [OF a m ok, where base_delay = 3 and max_attempts' = "Some 2"
        and base_delay' = 7]
    by (simp add: empty_world_def count_simps)
qed

lemma generate_with_retry_cached:
  assumes "generate_with_retry env model prompt max_attempts base_delay True w = (Inr r, w1)"
  shows "RESPONSE_CACHE w1 (cache_key env prompt) = Some r"
proof (cases "RESPONSE_CACHE w (cache_key env prompt)")
  case None
  with assms have "attempt_loop env model prompt True (attempts_of env max_attempts)
      base_delay 1 None w = (Inr r, w1)"
    by (simp add: generate_with_retry_def)
  then show ?thesis
    by (rule attempt_loop_cached [OF refl])
next
  case (Some r')
  with assms show ?thesis
    by (simp add: generate_with_retry_def)
qed

text \<open>
  Claim C5, as the code has it: the cache key is the first 16 characters of the digest of
  the prompt alone. After a cached call that succeeded, a cached call with the same prompt
  returns the same response and leaves the world as it is, whatever its model, its attempt
  budget and its delay are.
\<close>

theorem cache_key_ignores_model:
  assumes "generate_with_retry env model prompt max_attempts base_delay True w = (Inr r, w1)"
  shows "generate_with_retry env model' prompt max_attempts' base_delay' True w1 = (Inr r, w1)"
  using generate_with_retry_cached [OF assms] by (simp add: generate_with_retry_def)

theorem cache_key_ignores_model_witness:
  "generate_with_retry (example_env two_models) ''model-a'' ''prompt'' None 3 True empty_world
     = (Inr ''response of model-a'',
        \<lparr>RESPONSE_CACHE = [''prompt'' \<mapsto> ''response of model-a''],
         events = [Acquire, Generate ''model-a'' ''prompt'']\<rparr>)
   \<and> generate_with_retry (example_env two_models) ''model-b'' ''prompt'' None 3 True
       \<lparr>RESPONSE_CACHE = [''prompt'' \<mapsto> ''response of model-a''],
         events = [Acquire, Generate ''model-a'' ''prompt'']\<rparr>
     = (Inr ''response of model-a'',
        \<lparr>RESPONSE_CACHE = [''prompt'' \<mapsto> ''response of model-a''],
         events = [Acquire, Generate ''model-a'' ''prompt'']\<rparr>)"
proof -
  have 1: "generate_with_retry (example_env two_models) ''model-a'' ''prompt'' None 3 True
       empty_world
     = (Inr ''response of model-a'',
        \<lparr>RESPONSE_CACHE = [''prompt'' \<mapsto> ''response of model-a''],
         events = [Acquire, Generate ''model-a'' ''prompt'']\<rparr>)"
    by (simp add: generate_with_retry_def attempts_of_def attempt_loop_step example_env_def
        empty_world_def two_models_def cache_key_def count_simps)
  show ?thesis
    using 1 cache_key_ignores_model [OF 1, where model' = "''model-b''" and max_attempts' = None
        and base_delay' = 3]
    by simp
qed

text \<open>
  Two calls with the same prompt and different models share one cache entry: the second
  call returns the response of the first model, and its own model, which would have
  answered differently, is never called.
\<close>

theorem cache_key_without_model:
  "fst (generate_with_retry (example_env two_models) ''model-b'' ''prompt'' None 3 True
          (snd (generate_with_retry (example_env two_models) ''model-a'' ''prompt'' None 3 True
                  empty_world)))
     = Inr ''response of model-a''
   \<and> generate_content (example_env two_models) ''model-b'' ''prompt'' 1
     = Inr ''response of model-b''
   \<and> events (snd (generate_with_retry (example_env two_models) ''model-b'' ''prompt'' None 3 True
          (snd (generate_with_retry (example_env two_models) ''model-a'' ''prompt'' None 3 True
                  empty_world))))
     = [Acquire, Generate ''model-a'' ''prompt'']"
  by (simp add: generate_with_retry_def attempts_of_def attempt_loop_step example_env_def
        empty_world_def two_models_def cache_key_def count_simps)

lemma backoff_schedule_length:
  "length (backoff_schedule m p b a k) = 3 * k - 1"
  by (induction m p b a k rule: backoff_schedule.induct) simp_all

lemma backoff_schedule_nth:
  "j < k \<Longrightarrow>
   backoff_schedule m p b a k ! (3 * j) = Acquire
   \<and> backoff_schedule m p b a k ! (3 * j + 1) = Generate m p
   \<and> (j + 1 < k \<longrightarrow> backoff_schedule m p b a k ! (3 * j + 2) = Sleep (b ^ (a + j)))"
proof (induction m p b a k arbitrary: j rule: backoff_schedule.induct)
  case (1 m p b a)
  then show ?case by simp
next
  case (2 m p b a)
  then show ?case by simp
next
  case (3 m p b a k)
  show ?case
  proof (cases j)
    case 0
    then show ?thesis by simp
  next
    case (Suc i)
    with "3.prems" have "i < Suc k" by simp
    from "3.IH" [OF this] Suc show ?thesis
      by (simp add: nth_Cons' )
  qed
qed

text \<open>
  Claim C7: what a call adds to the log is, for some number \<open>k\<close> of attempts, the
  schedule of \<open>k\<close> attempts: attempt \<open>n\<close> is an acquisition of the rate limiter followed
  by a call of the model, and whenever an attempt \<open>n + 1\<close> is made, exactly one sleep of
  \<open>base_delay ^ n\<close> seconds lies between the call of attempt \<open>n\<close> and the acquisition of
  attempt \<open>n + 1\<close>; there is no other sleep. A call that finds no cached response and
  whose every attempt fails with a retryable error (the delay not being negative, the
  budget at least 1) makes as many attempts as the budget says, with these sleeps, and
  raises the error of the last call. With three attempts and a base delay of 3 it calls
  the model three times, sleeps 3 seconds before the second attempt and 9 seconds before
  the third, and raises the error of the third call.
\<close>

theorem exponential_backoff:
  "(\<exists>es k. events (snd (generate_with_retry env model prompt max_attempts base_delay
                         enable_cache w)) = events w @ es
        \<and> es = backoff_schedule model prompt base_delay 1 k
        \<and> invocations es = k
        \<and> length es = 3 * k - 1
        \<and> (\<forall>j<k. es ! (3 * j) = Acquire
                  \<and> es ! (3 * j + 1) = Generate model prompt
                  \<and> (j + 1 < k \<longrightarrow> es ! (3 * j + 2) = Sleep (base_delay ^ (j + 1))))
        \<and> (\<forall>i<length es. \<forall>d. es ! i = Sleep d \<longrightarrow> d = base_delay ^ invocations (take i es)))
   \<and> ((enable_cache \<longrightarrow> RESPONSE_CACHE w (cache_key env prompt) = None)
       \<and> (\<forall>k. \<exists>e. generate_content env model prompt k = Inl e
                   \<and> is_retryable (client_error_is_exception env) e)
       \<and> 0 \<le> base_delay \<and> 1 \<le> attempts_of env max_attempts
       \<longrightarrow> generate_with_retry env model prompt max_attempts base_delay enable_cache w
             = (generate_content env model prompt
                  (invocations (events w) + nat (attempts_of env max_attempts) - 1),
                w\<lparr>events := events w @
                    backoff_schedule model prompt base_delay 1
                      (nat (attempts_of env max_attempts))\<rparr>))
   \<and> ((enable_cache \<longrightarrow> RESPONSE_CACHE w (cache_key env prompt) = None)
       \<and> (\<forall>k. \<exists>e. generate_content env model prompt k = Inl e
                   \<and> is_retryable (client_error_is_exception env) e)
       \<longrightarrow> generate_with_retry env model prompt (Some 3) 3 enable_cache w
             = (generate_content env model prompt (invocations (events w) + 2),
                w\<lparr>events := events w @
                    [Acquire, Generate model prompt, Sleep 3,
                     Acquire, Generate model prompt, Sleep 9,
                     Acquire, Generate model prompt]\<rparr>))"
proof (intro conjI impI)
  have shape: "\<And>k. \<exists>es k'. events w @ backoff_schedule model prompt base_delay (Suc 0) k
                 = events w @ es
        \<and> es = backoff_schedule model prompt base_delay 1 k'
        \<and> invocations es = k'
        \<and> length es = 3 * k' - 1
        \<and> (\<forall>j<k'. es ! (3 * j) = Acquire
                  \<and> es ! (3 * j + 1) = Generate model prompt
                  \<and> (j + 1 < k' \<longrightarrow> es ! (3 * j + 2) = Sleep (base_delay ^ (j + 1))))
        \<and> (\<forall>i<length es. \<forall>d. es ! i = Sleep d \<longrightarrow> d = base_delay ^ invocations (take i es))"
  proof -
    fix k
    let ?es = "backoff_schedule model prompt base_delay (Suc 0) k"
    have 1: "\<forall>i<length ?es. \<forall>d. ?es ! i = Sleep d \<longrightarrow> d = base_delay ^ invocations (take i ?es)"
      using backoff_schedule_sleeps [of _ model prompt base_delay "Suc 0" k] by simp
    have 2: "\<forall>j<k. ?es ! (3 * j) = Acquire
                  \<and> ?es ! (3 * j + 1) = Generate model prompt
                  \<and> (j + 1 < k \<longrightarrow> ?es ! (3 * j + 2) = Sleep (base_delay ^ (j + 1)))"
      using backoff_schedule_nth [of _ k model prompt base_delay "Suc 0"] by simp
    from 1 2 show "\<exists>es k'. events w @ ?es = events w @ es
        \<and> es = backoff_schedule model prompt base_delay 1 k'
        \<and> invocations es = k'
        \<and> length es = 3 * k' - 1
        \<and> (\<forall>j<k'. es ! (3 * j) = Acquire
                  \<and> es ! (3 * j + 1) = Generate model prompt
                  \<and> (j + 1 < k' \<longrightarrow> es ! (3 * j + 2) = Sleep (base_delay ^ (j + 1))))
        \<and> (\<forall>i<length es. \<forall>d. es ! i = Sleep d \<longrightarrow> d = base_delay ^ invocations (take i es))"
      by (simp add: invocations_backoff_schedule backoff_schedule_length)
  qed
  show "\<exists>es k. events (snd (generate_with_retry env model prompt max_attempts base_delay
                         enable_cache w)) = events w @ es
        \<and> es = backoff_schedule model prompt base_delay 1 k
        \<and> invocations es = k
        \<and> length es = 3 * k - 1
        \<and> (\<forall>j<k. es ! (3 * j) = Acquire
                  \<and> es ! (3 * j + 1) = Generate model prompt
                  \<and> (j + 1 < k \<longrightarrow> es ! (3 * j + 2) = Sleep (base_delay ^ (j + 1))))
        \<and> (\<forall>i<length es. \<forall>d. es ! i = Sleep d \<longrightarrow> d = base_delay ^ invocations (take i es))"
  proof (cases "if enable_cache then RESPONSE_CACHE w (cache_key env prompt) else None")
    case (Some r)
    then have "events (snd (generate_with_retry env model prompt max_attempts base_delay
        enable_cache w)) = events w @ backoff_schedule model prompt base_delay (Suc 0) 0"
      by (simp add: generate_with_retry_def)
    with shape [of 0] show ?thesis by simp
  next
    case None
    then have gwr: "generate_with_retry env model prompt max_attempts base_delay enable_cache w
      = attempt_loop env model prompt enable_cache (attempts_of env max_attempts) base_delay
          1 None w"
      by (simp add: generate_with_retry_def)
    from attempt_loop_events [OF refl, where attempt = 1 and env = env and m = model
        and p = prompt and c = enable_cache and attempts = "attempts_of env max_attempts"
        and b = base_delay and le = None and w = w]
    obtain k where k: "events (snd (attempt_loop env model prompt enable_cache
        (attempts_of env max_attempts) base_delay 1 None w))
        = events w @ backoff_schedule model prompt base_delay (Suc 0) k"
      by auto
    with shape [of k] gwr show ?thesis by simp
  qed
next
  assume h: "(enable_cache \<longrightarrow> RESPONSE_CACHE w (cache_key env prompt) = None)
       \<and> (\<forall>k. \<exists>e. generate_content env model prompt k = Inl e
                   \<and> is_retryable (client_error_is_exception env) e)
       \<and> 0 \<le> base_delay \<and> 1 \<le> attempts_of env max_attempts"
  let ?a = "attempts_of env max_attempts"
  from h have gwr: "generate_with_retry env model prompt max_attempts base_delay enable_cache w
      = attempt_loop env model prompt enable_cache ?a base_delay 1 None w"
    by (simp add: generate_with_retry_def)
  from h have n: "1 \<le> ?a" by blast
  have nat_eq: "Suc (nat (?a - 1)) = nat ?a"
    using n by simp
  have "attempt_loop env model prompt enable_cache ?a base_delay 1 None w =
       (generate_content env model prompt (invocations (events w) + nat (?a - 1)),
        w\<lparr>events := events w @ backoff_schedule model prompt base_delay (nat 1) (Suc (nat (?a - 1)))\<rparr>)"
    using h by (intro attempt_loop_all_fail) simp_all
  moreover have "invocations (events w) + nat (?a - 1) = invocations (events w) + nat ?a - 1"
    using n by simp
  ultimately show "generate_with_retry env model prompt max_attempts base_delay enable_cache w
             = (generate_content env model prompt
                  (invocations (events w) + nat ?a - 1),
                w\<lparr>events := events w @
                    backoff_schedule model prompt base_delay 1 (nat ?a)\<rparr>)"
    using gwr nat_eq by simp
next
  assume h: "(enable_cache \<longrightarrow> RESPONSE_CACHE w (cache_key env prompt) = None)
       \<and> (\<forall>k. \<exists>e. generate_content env model prompt k = Inl e
                   \<and> is_retryable (client_error_is_exception env) e)"
  then have gwr: "generate_with_retry env model prompt (Some 3) 3 enable_cache w
      = attempt_loop env model prompt enable_cache 3 3 1 None w"
    by (simp add: generate_with_retry_def attempts_of_def)
  have "attempt_loop env model prompt enable_cache 3 3 1 None w =
       (generate_content env model prompt (invocations (events w) + 2),
        w\<lparr>events := events w @ backoff_schedule model prompt 3 (nat 1) (Suc 2)\<rparr>)"
    using h by (intro attempt_loop_all_fail) simp_all
  then show "generate_with_retry env model prompt (Some 3) 3 enable_cache w
             = (generate_content env model prompt (invocations (events w) + 2),
                w\<lparr>events := events w @
                    [Acquire, Generate model prompt, Sleep 3,
                     Acquire, Generate model prompt, Sleep 9,
                     Acquire, Generate model prompt]\<rparr>)"
    using gwr by (simp add: numeral_2_eq_2)
qed


theorem exponential_backoff_witness:
  "generate_with_retry (example_env (\<lambda>m p k. Inl (Exn (Some 503) False ''unavailable'')))
      ''gemini'' ''prompt'' (Some 3) 3 True empty_world
     = (Inl (Exn (Some 503) False ''unavailable''),
        \<lparr>RESPONSE_CACHE = Map.empty,
         events = [Acquire, Generate ''gemini'' ''prompt'', Sleep 3,
                   Acquire, Generate ''gemini'' ''prompt'', Sleep 9,
                   Acquire, Generate ''gemini'' ''prompt'']\<rparr>)
   \<and> (\<exists>es. events (snd (generate_with_retry
                 (example_env (\<lambda>m p k. Inl (Exn (Some 503) False ''unavailable'')))
                 ''gemini'' ''prompt'' (Some 3) 3 True empty_world)) = es
          \<and> length es = 8
          \<and> es ! 0 = Acquire \<and> es ! 1 = Generate ''gemini'' ''prompt'' \<and> es ! 2 = Sleep (3 ^ 1)
          \<and> es ! 3 = Acquire \<and> es ! 4 = Generate ''gemini'' ''prompt'' \<and> es ! 5 = Sleep (3 ^ 2)
          \<and> es ! 6 = Acquire \<and> es ! 7 = Generate ''gemini'' ''prompt'')"
proof -
  let ?e = "example_env (\<lambda>m p k. Inl (Exn (Some 503) False ''unavailable''))"
  let ?R = "generate_with_retry ?e ''gemini'' ''prompt'' (Some 3) 3 True empty_world"
  have h: "(True \<longrightarrow> RESPONSE_CACHE empty_world (cache_key ?e ''prompt'') = None)
       \<and> (\<forall>k. \<exists>e. generate_content ?e ''gemini'' ''prompt'' k = Inl e
                   \<and> is_retryable (client_error_is_exception ?e) e)"
    by (simp add: empty_world_def example_env_def is_retryable_def RETRYABLE_STATUS_def)
  have a: "(0::int) \<le> 3 \<and> 1 \<le> attempts_of ?e (Some 3)"
    by (simp add: attempts_of_def)
  note t = exponential_backoff [where env = ?e and model = "''gemini''"
      and prompt = "''prompt''" and max_attempts = "Some 3" and base_delay = 3
      and enable_cache = True and w = empty_world]
  from t h a
  have "?R = (generate_content ?e ''gemini'' ''prompt''
                  (invocations (events empty_world) + nat (attempts_of ?e (Some 3)) - 1),
                empty_world\<lparr>events := events empty_world @
                    backoff_schedule ''gemini'' ''prompt'' 3 1 (nat (attempts_of ?e (Some 3)))\<rparr>)"
    by blast
  then have R: "?R = (Inl (Exn (Some 503) False ''unavailable''),
        \<lparr>RESPONSE_CACHE = Map.empty,
         events = [Acquire, Generate ''gemini'' ''prompt'', Sleep 3,
                   Acquire, Generate ''gemini'' ''prompt'', Sleep 9,
                   Acquire, Generate ''gemini'' ''prompt'']\<rparr>)"
    by (simp add: empty_world_def example_env_def attempts_of_def numeral_3_eq_3)
  from t obtain es k where es: "events (snd ?R) = events empty_world @ es"
    "invocations es = k" "length es = 3 * k - 1"
    "\<forall>j<k. es ! (3 * j) = Acquire
                  \<and> es ! (3 * j + 1) = Generate ''gemini'' ''prompt''
                  \<and> (j + 1 < k \<longrightarrow> es ! (3 * j + 2) = Sleep (3 ^ (j + 1)))"
    by blast
  from es(1) R have e: "es = [Acquire, Generate ''gemini'' ''prompt'', Sleep 3,
                   Acquire, Generate ''gemini'' ''prompt'', Sleep 9,
                   Acquire, Generate ''gemini'' ''prompt'']"
    by (simp add: empty_world_def)
  with es(2) have k: "k = 3"
    by (simp add: count_simps)
  from es(3) k have l: "length es = 8" by simp
  from es(4) [rule_format, of 0] es(4) [rule_format, of 1] es(4) [rule_format, of 2] k
  have n: "es ! 0 = Acquire \<and> es ! 1 = Generate ''gemini'' ''prompt'' \<and> es ! 2 = Sleep (3 ^ 1)
          \<and> es ! 3 = Acquire \<and> es ! 4 = Generate ''gemini'' ''prompt'' \<and> es ! 5 = Sleep (3 ^ 2)
          \<and> es ! 6 = Acquire \<and> es ! 7 = Generate ''gemini'' ''prompt''"
    by (simp add: numeral_2_eq_2)
  from es(1) have "events (snd ?R) = es"
    by (simp add: empty_world_def)
  with R l n show ?thesis
    by blast
qed

section \<open>Properties of the dispatch stage\<close>

lemma str_nat_digits:
  "str_nat 1 = ''1''" "str_nat 2 = ''2''" "str_nat 3 = ''3''" "str_nat (Suc 0) = ''1''"
  by code_simp+

lemma post_loop_4: "post_loop env e p 4 le state sent = (Inr (None, le), state, sent)"
  by (subst post_loop.simps) (simp add: MAX_ATTEMPTS_def)

lemma post_loop_3:
  "post_loop env e p 3 le state sent =
     (case post env e p DISPATCH_TIMEOUT 3 of
        Response code body \<Rightarrow>
          (Inr (Some (code, body), le), state, sent @ [Post e p DISPATCH_TIMEOUT])
      | OtherException exc \<Rightarrow> (Inl exc, state, sent @ [Post e p DISPATCH_TIMEOUT])
      | RequestException m \<Rightarrow>
          (Inr (None, Some m),
           state\<lparr>planning_notes := planning_notes state @
                    [''Dispatch attempt 3 failed: '' @ m]\<rparr>,
           sent @ [Post e p DISPATCH_TIMEOUT]))"
  by (subst post_loop.simps)
     (simp add: MAX_ATTEMPTS_def post_loop_4 str_nat_digits split: http_outcome.splits)

lemma post_loop_2:
  "post_loop env e p 2 le state sent =
     (case post env e p DISPATCH_TIMEOUT 2 of
        Response code body \<Rightarrow>
          (Inr (Some (code, body), le), state, sent @ [Post e p DISPATCH_TIMEOUT])
      | OtherException exc \<Rightarrow> (Inl exc, state, sent @ [Post e p DISPATCH_TIMEOUT])
      | RequestException m \<Rightarrow>
          post_loop env e p 3 (Some m)
            (state\<lparr>planning_notes := planning_notes state @
                     [''Dispatch attempt 2 failed: '' @ m]\<rparr>)
            (sent @ [Post e p DISPATCH_TIMEOUT, SleepSeconds 10]))"
  by (subst post_loop.simps)
     (simp add: MAX_ATTEMPTS_def BACKOFF_SECONDS_def str_nat_digits split: http_outcome.splits)

lemma post_loop_1:
  "post_loop env e p (Suc 0) le state sent =
     (case post env e p DISPATCH_TIMEOUT (Suc 0) of
        Response code body \<Rightarrow>
          (Inr (Some (code, body), le), state, sent @ [Post e p DISPATCH_TIMEOUT])
      | OtherException exc \<Rightarrow> (Inl exc, state, sent @ [Post e p DISPATCH_TIMEOUT])
      | RequestException m \<Rightarrow>
          post_loop env e p 2 (Some m)
            (state\<lparr>planning_notes := planning_notes state @
                     [''Dispatch attempt 1 failed: '' @ m]\<rparr>)
            (sent @ [Post e p DISPATCH_TIMEOUT, SleepSeconds 5]))"
  by (subst post_loop.simps)
     (simp add: MAX_ATTEMPTS_def BACKOFF_SECONDS_def str_nat_digits numeral_2_eq_2
        split: http_outcome.splits)

lemma post_loop_sent:
  "snd (snd (post_loop env e p 1 None state [])) \<in>
     {[Post e p (10, 180)],
      [Post e p (10, 180), SleepSeconds 5, Post e p (10, 180)],
      [Post e p (10, 180), SleepSeconds 5, Post e p (10, 180), SleepSeconds 10,
       Post e p (10, 180)]}"
  by (simp add: post_loop_1 post_loop_2 post_loop_3 DISPATCH_TIMEOUT_def
      split: http_outcome.splits)

lemma post_loop_exhausted:
  assumes "post env e p (10, 180) 1 = RequestException m1"
    and "post env e p (10, 180) 2 = RequestException m2"
    and "post env e p (10, 180) 3 = RequestException m3"
  shows "post_loop env e p 1 None state [] =
     (Inr (None, Some m3),
      state\<lparr>planning_notes := planning_notes state @
              [''Dispatch attempt 1 failed: '' @ m1, ''Dispatch attempt 2 failed: '' @ m2,
               ''Dispatch attempt 3 failed: '' @ m3]\<rparr>,
      [Post e p (10, 180), SleepSeconds 5, Post e p (10, 180), SleepSeconds 10,
       Post e p (10, 180)])"
  using assms by (simp add: post_loop_1 post_loop_2 post_loop_3 DISPATCH_TIMEOUT_def)

text \<open>
  \<^verbatim>\<open>A2ADispatchAgent.process\<close> on the dictionary it is given: it posts at most three
  times, always with the timeout of 10 seconds to connect and 180 seconds to read, and
  sleeps 5 seconds after the first failed attempt and 10 seconds after the second. When
  dispatch is enabled, the state is ready for suggestions and all three attempts raise a
  request exception, it sets the status of that dictionary to \<open>completed_with_warning\<close>,
  appends one entry about the dispatch failure to its errors, and sets its
  \<open>adk_b_response\<close> to a dictionary with status \<open>dispatch_failed\<close>.
\<close>

theorem dispatch_failure_handling:
  "length (filter is_post (snd (dispatch_process env state))) \<le> 3
   \<and> snd (dispatch_process env state) \<in>
       {[],
        [Post (dispatch_endpoint env) (dispatch_payload state) (10, 180)],
        [Post (dispatch_endpoint env) (dispatch_payload state) (10, 180), SleepSeconds 5,
         Post (dispatch_endpoint env) (dispatch_payload state) (10, 180)],
        [Post (dispatch_endpoint env) (dispatch_payload state) (10, 180), SleepSeconds 5,
         Post (dispatch_endpoint env) (dispatch_payload state) (10, 180), SleepSeconds 10,
         Post (dispatch_endpoint env) (dispatch_payload state) (10, 180)]}
   \<and> (ENABLE_A2A_DISPATCH env \<and> ready_for_suggestions state
        \<and> post env (dispatch_endpoint env) (dispatch_payload state) (10, 180) 1
            = RequestException m1
        \<and> post env (dispatch_endpoint env) (dispatch_payload state) (10, 180) 2
            = RequestException m2
        \<and> post env (dispatch_endpoint env) (dispatch_payload state) (10, 180) 3
            = RequestException m3
      \<longrightarrow> status (fst (dispatch_process env state)) = ''completed_with_warning''
          \<and> errors (fst (dispatch_process env state))
              = errors state @ [''ADK-B dispatch failed after 3 attempts: '' @ m3]
          \<and> adk_b_response (fst (dispatch_process env state))
              = Some (JDict [(''status'', JStr ''dispatch_failed''), (''error'', JStr m3)])
          \<and> snd (dispatch_process env state)
              = [Post (dispatch_endpoint env) (dispatch_payload state) (10, 180), SleepSeconds 5,
                 Post (dispatch_endpoint env) (dispatch_payload state) (10, 180), SleepSeconds 10,
                 Post (dispatch_endpoint env) (dispatch_payload state) (10, 180)])"
proof (intro conjI impI)
  let ?e = "dispatch_endpoint env" and ?p = "dispatch_payload state"
  have sent: "snd (dispatch_process env state) = []
      \<or> snd (dispatch_process env state) = snd (snd (post_loop env ?e ?p 1 None state []))"
    by (auto simp: dispatch_process_def split: prod.splits sum.splits option.splits)
  with post_loop_sent [of env ?e ?p state]
  show in_set: "snd (dispatch_process env state) \<in>
       {[], [Post ?e ?p (10, 180)],
        [Post ?e ?p (10, 180), SleepSeconds 5, Post ?e ?p (10, 180)],
        [Post ?e ?p (10, 180), SleepSeconds 5, Post ?e ?p (10, 180), SleepSeconds 10,
         Post ?e ?p (10, 180)]}"
    by auto
  then show "length (filter is_post (snd (dispatch_process env state))) \<le> 3"
    by auto
next
  let ?e = "dispatch_endpoint env" and ?p = "dispatch_payload state"
  assume h: "ENABLE_A2A_DISPATCH env \<and> ready_for_suggestions state
        \<and> post env ?e ?p (10, 180) 1 = RequestException m1
        \<and> post env ?e ?p (10, 180) 2 = RequestException m2
        \<and> post env ?e ?p (10, 180) 3 = RequestException m3"
  then have loop: "post_loop env ?e ?p 1 None state [] =
     (Inr (None, Some m3),
      state\<lparr>planning_notes := planning_notes state @
              [''Dispatch attempt 1 failed: '' @ m1, ''Dispatch attempt 2 failed: '' @ m2,
               ''Dispatch attempt 3 failed: '' @ m3]\<rparr>,
      [Post ?e ?p (10, 180), SleepSeconds 5, Post ?e ?p (10, 180), SleepSeconds 10,
       Post ?e ?p (10, 180)])"
    by (intro post_loop_exhausted) simp_all
  show "status (fst (dispatch_process env state)) = ''completed_with_warning''"
    using h loop by (simp add: dispatch_process_def)
  show "errors (fst (dispatch_process env state))
              = errors state @ [''ADK-B dispatch failed after 3 attempts: '' @ m3]"
    using h loop
    by (simp add: dispatch_process_def MAX_ATTEMPTS_def str_nat_digits str_last_error_def)
  show "adk_b_response (fst (dispatch_process env state))
              = Some (JDict [(''status'', JStr ''dispatch_failed''), (''error'', JStr m3)])"
    using h loop by (simp add: dispatch_process_def str_last_error_def)
  show "snd (dispatch_process env state)
              = [Post ?e ?p (10, 180), SleepSeconds 5, Post ?e ?p (10, 180), SleepSeconds 10,
                 Post ?e ?p (10, 180)]"
    using h loop by (simp add: dispatch_process_def)
qed

theorem dispatch_failure_handling_witness:
  "status (fst (dispatch_process unreachable (processing_state\<lparr>ready_for_suggestions := True\<rparr>)))
     = ''completed_with_warning''
   \<and> errors (fst (dispatch_process unreachable
        (processing_state\<lparr>ready_for_suggestions := True\<rparr>)))
     = [''ADK-B dispatch failed after 3 attempts: connection refused'']
   \<and> adk_b_response (fst (dispatch_process unreachable
        (processing_state\<lparr>ready_for_suggestions := True\<rparr>)))
     = Some (JDict [(''status'', JStr ''dispatch_failed''),
                    (''error'', JStr ''connection refused'')])
   \<and> map is_post (snd (dispatch_process unreachable
        (processing_state\<lparr>ready_for_suggestions := True\<rparr>)))
     = [True, False, True, False, True]"
proof -
  let ?s = "processing_state\<lparr>ready_for_suggestions := True\<rparr>"
  have h: "ENABLE_A2A_DISPATCH unreachable \<and> ready_for_suggestions ?s
        \<and> post unreachable (dispatch_endpoint unreachable) (dispatch_payload ?s) (10, 180) 1
            = RequestException ''connection refused''
        \<and> post unreachable (dispatch_endpoint unreachable) (dispatch_payload ?s) (10, 180) 2
            = RequestException ''connection refused''
        \<and> post unreachable (dispatch_endpoint unreachable) (dispatch_payload ?s) (10, 180) 3
            = RequestException ''connection refused''"
    by (simp add: unreachable_def)
  have e: "errors ?s = []"
    by (simp add: processing_state_def initial_state_def)
  show ?thesis
    using dispatch_failure_handling [of unreachable ?s "''connection refused''"
        "''connection refused''" "''connection refused''"] h e
    by simp
qed

section \<open>Properties of the scheduler and of the workflow\<close>

lemma post_loop_state:
  "\<exists>pn. fst (snd (post_loop env e p (Suc 0) le state sent))
     = state\<lparr>planning_notes := pn\<rparr>"
proof -
  have triv: "state = state\<lparr>planning_notes := planning_notes state\<rparr>"
    by simp
  show ?thesis
    apply (simp add: post_loop_1 post_loop_2 post_loop_3 split: http_outcome.splits)
    using triv by blast
qed

lemma dispatch_process_cases:
  "\<exists>pn st er ad au.
     fst (dispatch_process env state)
       = state\<lparr>planning_notes := pn, status := st, errors := er, adk_b_response := ad,
               audit_log := au\<rparr>
     \<and> st \<in> terminal_statuses"
proof -
  obtain out s1 sent where pl:
    "post_loop env (dispatch_endpoint env) (dispatch_payload state) (Suc 0) None state []
       = (out, s1, sent)"
    by (metis prod_cases3)
  with post_loop_state [of env "dispatch_endpoint env" "dispatch_payload state" None state "[]"]
  obtain pn where s1: "s1 = state\<lparr>planning_notes := pn\<rparr>"
    by auto
  have "\<exists>pn st er ad au.
     fst (dispatch_process env state)
       = state\<lparr>planning_notes := pn, status := st, errors := er, adk_b_response := ad,
               audit_log := au\<rparr>
     \<and> st \<in> {''completed'', ''completed_with_warning'', ''error''}"
  proof (cases "ENABLE_A2A_DISPATCH env \<and> ready_for_suggestions state")
    case False
    have "fst (dispatch_process env state)
       = state\<lparr>planning_notes := planning_notes (fst (dispatch_process env state)),
               status := ''completed'', errors := errors state,
               adk_b_response := adk_b_response state, audit_log := audit_log state\<rparr>"
      using False by (auto simp: dispatch_process_def)
    then show ?thesis by blast
  next
    case True
    have "fst (dispatch_process env state)
       = state\<lparr>planning_notes := planning_notes (fst (dispatch_process env state)),
               status := status (fst (dispatch_process env state)),
               errors := errors (fst (dispatch_process env state)),
               adk_b_response := adk_b_response (fst (dispatch_process env state)),
               audit_log := audit_log (fst (dispatch_process env state))\<rparr>
        \<and> status (fst (dispatch_process env state))
            \<in> {''completed'', ''completed_with_warning'', ''error''}"
      using True pl s1
      by (auto simp: dispatch_process_def dispatch_failed_with_def
          split: sum.splits option.splits prod.splits)
    then show ?thesis by blast
  qed
  then show ?thesis
    by (simp add: terminal_statuses_def)
qed

lemma dispatch_process_keeps_upstream:
  "keeps_upstream_fields (\<lambda>s. Inr (fst (dispatch_process env s)))"
proof -
  {
    fix s
    from dispatch_process_cases [of env s]
    obtain pn st er ad au where
      "fst (dispatch_process env s)
       = s\<lparr>planning_notes := pn, status := st, errors := er, adk_b_response := ad,
               audit_log := au\<rparr>"
      by blast
    then have "extracted_clauses (fst (dispatch_process env s)) = extracted_clauses s
        \<and> clause_count (fst (dispatch_process env s)) = clause_count s
        \<and> metadata_summary (fst (dispatch_process env s)) = metadata_summary s
        \<and> document_outline (fst (dispatch_process env s)) = document_outline s
        \<and> key_entities (fst (dispatch_process env s)) = key_entities s
        \<and> risk_assessments (fst (dispatch_process env s)) = risk_assessments s
        \<and> high_risk_count (fst (dispatch_process env s)) = high_risk_count s
        \<and> overall_risk_score (fst (dispatch_process env s)) = overall_risk_score s"
      by simp
  }
  then show ?thesis
    by (auto simp: keeps_upstream_fields_def)
qed


lemma merge_None:
  "merge_clauses None s = s" "merge_summary None s = s"
  "merge_risk None s = s" "merge_suggestion None s = s"
  by (simp_all add: merge_clauses_def merge_summary_def merge_risk_def merge_suggestion_def)

lemma merge_clauses_Same:
  "merge_clauses (Some Same) s = s\<lparr>audit_log := audit_log s @ audit_log s\<rparr>"
  by (simp add: merge_clauses_def extend_audit_log_def Let_def)

lemma merge_summary_Same:
  "merge_summary (Some Same) s = s\<lparr>audit_log := audit_log s @ audit_log s\<rparr>"
  by (simp add: merge_summary_def extend_audit_log_def Let_def)

lemma merge_risk_Same:
  "merge_risk (Some Same) s =
     s\<lparr>planning_notes := planning_notes s @ planning_notes s,
       errors := errors s @ errors s, audit_log := audit_log s @ audit_log s\<rparr>"
  by (simp add: merge_risk_def extend_audit_log_def Let_def)

lemma merge_suggestion_Same:
  "merge_suggestion (Some Same) s =
     s\<lparr>planning_notes := planning_notes s @ planning_notes s,
       errors := errors s @ errors s, audit_log := audit_log s @ audit_log s\<rparr>"
  by (simp add: merge_suggestion_def extend_audit_log_def Let_def split: option.splits)

lemma merge_clauses_Other:
  "merge_clauses (Some (Other x)) s =
     s\<lparr>extracted_clauses := extracted_clauses x, clause_count := clause_count x,
       audit_log := audit_log s @ audit_log x\<rparr>"
  by (simp add: merge_clauses_def extend_audit_log_def Let_def)

lemma merge_summary_Other:
  "merge_summary (Some (Other x)) s =
     s\<lparr>metadata_summary := metadata_summary x, document_outline := document_outline x,
       key_entities := key_entities x, audit_log := audit_log s @ audit_log x\<rparr>"
  by (simp add: merge_summary_def extend_audit_log_def Let_def)

lemma merge_risk_Other:
  "merge_risk (Some (Other x)) s =
     s\<lparr>risk_assessments := risk_assessments x, high_risk_count := high_risk_count x,
       overall_risk_score := overall_risk_score x,
       recommendation_trace := recommendation_trace x, context_bundle := context_bundle x,
       ready_for_suggestions := ready_for_suggestions x, cost_spent := cost_spent x,
       planning_notes := planning_notes s @ planning_notes x,
       status := (if status x \<noteq> [] then status x else status s),
       errors := errors s @ errors x, audit_log := audit_log s @ audit_log x\<rparr>"
  by (simp add: merge_risk_def extend_audit_log_def Let_def)

lemma merge_suggestion_Other:
  "merge_suggestion (Some (Other x)) s =
     s\<lparr>planning_notes := planning_notes s @ planning_notes x,
       adk_b_response :=
         (case adk_b_response x of
            None \<Rightarrow> adk_b_response s
          | Some answer \<Rightarrow> if truthy answer then Some answer else adk_b_response s),
       status := (if status x \<noteq> [] then status x else status s),
       errors := errors s @ errors x, audit_log := audit_log s @ audit_log x\<rparr>"
  by (simp add: merge_suggestion_def extend_audit_log_def Let_def split: option.splits)

lemmas merge_simps =
  merge_None merge_clauses_Same merge_summary_Same merge_risk_Same merge_suggestion_Same
  merge_clauses_Other merge_summary_Other merge_risk_Other merge_suggestion_Other

lemma errors_merge_clauses: "errors (merge_clauses r s) = errors s"
  by (cases r rule: option.exhaust; cases "the r"; simp add: merge_simps)

lemma errors_merge_summary: "errors (merge_summary r s) = errors s"
  by (cases r rule: option.exhaust; cases "the r"; simp add: merge_simps)

lemma errors_merge_risk: "set (errors s) \<subseteq> set (errors (merge_risk r s))"
  by (cases r rule: option.exhaust; cases "the r"; simp add: merge_simps)

lemma errors_merge_suggestion: "set (errors s) \<subseteq> set (errors (merge_suggestion r s))"
  by (cases r rule: option.exhaust; cases "the r"; simp add: merge_simps)

lemma process_unfold:
  "run_parallel_execution force_sequential agents state = (res, errs, state0, trace) \<Longrightarrow>
   process force_sequential agents state =
     (let s5 = merge_suggestion (suggestion res)
                 (merge_risk (risk res)
                    (merge_summary (summary res)
                       (merge_clauses (clauses res)
                          (state0\<lparr>errors := errors state0 @ task_error_strings errs\<rparr>))))
      in (s5\<lparr>audit_log := audit_log s5 @ [parallel_audit s5]\<rparr>, trace))"
  by (simp add: process_def Let_def)

lemma task_error_recorded:
  assumes "task_failed force_sequential agents state label exc"
  shows "label @ ''_task: '' @ message exc
           \<in> set (errors (fst (process force_sequential agents state)))"
proof -
  obtain res errs state0 trace where
    run: "run_parallel_execution force_sequential agents state = (res, errs, state0, trace)"
    by (metis prod_cases4)
  let ?s1 = "state0\<lparr>errors := errors state0 @ task_error_strings errs\<rparr>"
  from assms run have "(label, exc) \<in> set errs"
    by (simp add: task_failed_def)
  then have "label @ ''_task: '' @ message exc \<in> set (task_error_strings errs)"
    by (force simp: task_error_strings_def)
  then have "label @ ''_task: '' @ message exc \<in> set (errors ?s1)"
    by simp
  also have "set (errors ?s1)
      \<subseteq> set (errors (merge_risk (risk res)
               (merge_summary (summary res) (merge_clauses (clauses res) ?s1))))"
    using errors_merge_risk [of "merge_summary (summary res) (merge_clauses (clauses res) ?s1)"]
    by (simp add: errors_merge_summary errors_merge_clauses)
  also have "\<dots> \<subseteq> set (errors (merge_suggestion (suggestion res)
        (merge_risk (risk res)
               (merge_summary (summary res) (merge_clauses (clauses res) ?s1)))))"
    by (rule errors_merge_suggestion)
  finally show ?thesis
    by (simp add: process_unfold [OF run] Let_def)
qed

lemma process_trace:
  "snd (process force_sequential agents state)
     = snd (snd (snd (run_parallel_execution force_sequential agents state)))"
  by (simp add: process_def Let_def split: prod.splits)

lemma block_traces:
  "filter is_ran (snd (snd (clauses_block agents state))) = [Ran ''clauses'']"
  "filter is_ran (snd (snd (summary_block agents state))) = [Ran ''summary'']"
  "filter is_ran (snd (snd (risk_block agents state rc))) = [Ran ''risk'']"
  by (simp_all add: clauses_block_def summary_block_def risk_block_def split: sum.splits)

lemma execute_sequential_tasks_unfold:
  assumes "clauses_block agents state = (rc, e1, t1)"
    and "summary_block agents state = (rs, e2, t2)"
    and "risk_block agents state rc = (rr, e3, t3)"
    and "suggestion_block agents state rr = (state', rr', rg, e4)"
  shows "execute_sequential_tasks agents state =
     (\<lparr>clauses = Some rc, summary = Some rs, risk = Some rr', suggestion = Some rg\<rparr>,
      e1 @ e2 @ e3 @ e4, state', t1 @ t2 @ t3 @ [Ran ''suggestion''])"
  using assms by (simp add: execute_sequential_tasks_def)

lemma sequential_trace:
  "filter is_ran (snd (snd (snd (execute_sequential_tasks agents state))))
     = [Ran ''clauses'', Ran ''summary'', Ran ''risk'', Ran ''suggestion'']"
proof -
  obtain rc e1 t1 where c: "clauses_block agents state = (rc, e1, t1)"
    by (metis prod_cases3)
  obtain rs e2 t2 where m: "summary_block agents state = (rs, e2, t2)"
    by (metis prod_cases3)
  obtain rr e3 t3 where r: "risk_block agents state rc = (rr, e3, t3)"
    by (metis prod_cases3)
  obtain state' rr' rg e4 where g: "suggestion_block agents state rr = (state', rr', rg, e4)"
    by (metis prod_cases4)
  from block_traces(1) [of agents state] c have "filter is_ran t1 = [Ran ''clauses'']"
    by simp
  moreover from block_traces(2) [of agents state] m have "filter is_ran t2 = [Ran ''summary'']"
    by simp
  moreover from block_traces(3) [of agents state rc] r have "filter is_ran t3 = [Ran ''risk'']"
    by simp
  ultimately show ?thesis
    by (simp add: execute_sequential_tasks_unfold [OF c m r g])
qed

lemma sequential_all_ran:
  "filter is_ran (snd (process True agents state))
     = [Ran ''clauses'', Ran ''summary'', Ran ''risk'', Ran ''suggestion'']"
  by (simp add: process_trace run_parallel_execution_def sequential_trace)

lemma merge_clauses_frame:
  "metadata_summary (merge_clauses r s) = metadata_summary s"
  "document_outline (merge_clauses r s) = document_outline s"
  "key_entities (merge_clauses r s) = key_entities s"
  "risk_assessments (merge_clauses r s) = risk_assessments s"
  "high_risk_count (merge_clauses r s) = high_risk_count s"
  "overall_risk_score (merge_clauses r s) = overall_risk_score s"
  "adk_b_response (merge_clauses r s) = adk_b_response s"
  "status (merge_clauses r s) = status s"
  by (cases r rule: option.exhaust; cases "the r"; simp add: merge_simps)+

lemma merge_summary_frame:
  "extracted_clauses (merge_summary r s) = extracted_clauses s"
  "clause_count (merge_summary r s) = clause_count s"
  "risk_assessments (merge_summary r s) = risk_assessments s"
  "high_risk_count (merge_summary r s) = high_risk_count s"
  "overall_risk_score (merge_summary r s) = overall_risk_score s"
  "adk_b_response (merge_summary r s) = adk_b_response s"
  "status (merge_summary r s) = status s"
  by (cases r rule: option.exhaust; cases "the r"; simp add: merge_simps)+

lemma merge_risk_frame:
  "extracted_clauses (merge_risk r s) = extracted_clauses s"
  "clause_count (merge_risk r s) = clause_count s"
  "metadata_summary (merge_risk r s) = metadata_summary s"
  "document_outline (merge_risk r s) = document_outline s"
  "key_entities (merge_risk r s) = key_entities s"
  "adk_b_response (merge_risk r s) = adk_b_response s"
  by (cases r rule: option.exhaust; cases "the r"; simp add: merge_simps)+

lemma merge_suggestion_frame:
  "extracted_clauses (merge_suggestion r s) = extracted_clauses s"
  "clause_count (merge_suggestion r s) = clause_count s"
  "metadata_summary (merge_suggestion r s) = metadata_summary s"
  "document_outline (merge_suggestion r s) = document_outline s"
  "key_entities (merge_suggestion r s) = key_entities s"
  "risk_assessments (merge_suggestion r s) = risk_assessments s"
  "high_risk_count (merge_suggestion r s) = high_risk_count s"
  "overall_risk_score (merge_suggestion r s) = overall_risk_score s"
  by (cases r rule: option.exhaust; cases "the r"; simp add: merge_simps)+

lemmas merge_frame =
  merge_clauses_frame merge_summary_frame merge_risk_frame merge_suggestion_frame

lemma block_errors:
  "(l, e) \<in> set (fst (snd (clauses_block agents state))) \<Longrightarrow>
     l = ''clauses'' \<and> fst (clauses_block agents state) = Same"
  "(l, e) \<in> set (fst (snd (summary_block agents state))) \<Longrightarrow>
     l = ''summary'' \<and> fst (summary_block agents state) = Same"
  "(l, e) \<in> set (fst (snd (risk_block agents state rc))) \<Longrightarrow>
     l = ''risk'' \<and> fst (risk_block agents state rc) = Same"
  by (auto simp: clauses_block_def summary_block_def risk_block_def split: sum.splits)

lemma suggestion_block_cases:
  assumes "suggestion_block agents state rr = (state', rr', rg, e4)"
  shows "(state' = state \<or> (rr = Same \<and> dispatch_agent agents state = Inr state'))
     \<and> (rr = Same \<longrightarrow> rr' = Same \<and> rg = Same)
     \<and> (\<forall>l e. (l, e) \<in> set e4 \<longrightarrow> l = ''suggestion'' \<and> state' = state \<and> rg = Same)"
  using assms
  by (auto simp: suggestion_block_def run_suggestion_task_def split: sum.splits state_ref.splits)

lemma status_merge_risk:
  "status (merge_risk r s) = status s
     \<or> (\<exists>x. r = Some (Other x) \<and> status (merge_risk r s) = status x)"
  by (cases r rule: option.exhaust; cases "the r"; simp add: merge_simps)

lemma status_merge_suggestion:
  "status (merge_suggestion r s) = status s
     \<or> (\<exists>x. r = Some (Other x) \<and> status (merge_suggestion r s) = status x)"
  by (cases r rule: option.exhaust; cases "the r"; simp add: merge_simps)

lemma risk_block_provenance:
  "risk_block agents state rc = (Other x, e3, t3) \<Longrightarrow> returned_by agents x"
  by (auto simp: risk_block_def run_risk_task_def returned_by_def split: sum.splits)

lemma suggestion_block_provenance:
  assumes "suggestion_block agents state rr = (state', rr', rg, e4)"
    and "\<And>x. rr = Other x \<Longrightarrow> returned_by agents x"
  shows "(state' = state \<or> returned_by agents state')
     \<and> (\<forall>x. rr' = Other x \<longrightarrow> returned_by agents x)
     \<and> (\<forall>x. rg = Other x \<longrightarrow> returned_by agents x)"
  using assms
  by (auto simp: suggestion_block_def run_suggestion_task_def returned_by_def
      split: sum.splits state_ref.splits)

text \<open>The state a serialized run returns, from what its four blocks give.\<close>

lemma process_sequential:
  assumes "clauses_block agents state = (rc, e1, t1)"
    and "summary_block agents state = (rs, e2, t2)"
    and "risk_block agents state rc = (rr, e3, t3)"
    and "suggestion_block agents state rr = (state', rr', rg, e4)"
  shows "fst (process True agents state) =
     (let s5 = merge_suggestion (Some rg)
                 (merge_risk (Some rr')
                    (merge_summary (Some rs)
                       (merge_clauses (Some rc)
                          (state'\<lparr>errors := errors state' @
                                     task_error_strings (e1 @ e2 @ e3 @ e4)\<rparr>))))
      in s5\<lparr>audit_log := audit_log s5 @ [parallel_audit s5]\<rparr>)"
    and "fst (snd (run_parallel_execution True agents state)) = e1 @ e2 @ e3 @ e4"
proof -
  have run: "run_parallel_execution True agents state =
     (\<lparr>clauses = Some rc, summary = Some rs, risk = Some rr', suggestion = Some rg\<rparr>,
      e1 @ e2 @ e3 @ e4, state', t1 @ t2 @ t3 @ [Ran ''suggestion''])"
    by (simp add: run_parallel_execution_def execute_sequential_tasks_unfold [OF assms])
  show "fst (process True agents state) =
     (let s5 = merge_suggestion (Some rg)
                 (merge_risk (Some rr')
                    (merge_summary (Some rs)
                       (merge_clauses (Some rc)
                          (state'\<lparr>errors := errors state' @
                                     task_error_strings (e1 @ e2 @ e3 @ e4)\<rparr>))))
      in s5\<lparr>audit_log := audit_log s5 @ [parallel_audit s5]\<rparr>)"
    by (simp add: process_unfold [OF run] Let_def)
  show "fst (snd (run_parallel_execution True agents state)) = e1 @ e2 @ e3 @ e4"
    by (simp add: run)
qed

lemma sequential_status_provenance:
  "status (fst (process True agents state)) = status state
   \<or> (\<exists>s'. returned_by agents s' \<and> status (fst (process True agents state)) = status s')"
proof -
  obtain rc e1 t1 where c: "clauses_block agents state = (rc, e1, t1)"
    by (metis prod_cases3)
  obtain rs e2 t2 where m: "summary_block agents state = (rs, e2, t2)"
    by (metis prod_cases3)
  obtain rr e3 t3 where r: "risk_block agents state rc = (rr, e3, t3)"
    by (metis prod_cases3)
  obtain state' rr' rg e4 where g: "suggestion_block agents state rr = (state', rr', rg, e4)"
    by (metis prod_cases4)
  let ?s1 = "state'\<lparr>errors := errors state' @ task_error_strings (e1 @ e2 @ e3 @ e4)\<rparr>"
  let ?s3 = "merge_summary (Some rs) (merge_clauses (Some rc) ?s1)"
  let ?s4 = "merge_risk (Some rr') ?s3"
  let ?s5 = "merge_suggestion (Some rg) ?s4"
  have fin: "status (fst (process True agents state)) = status ?s5"
    by (simp add: process_sequential(1) [OF c m r g] Let_def)
  from suggestion_block_provenance [OF g] risk_block_provenance r
  have prov: "state' = state \<or> returned_by agents state'"
    "\<And>x. rr' = Other x \<Longrightarrow> returned_by agents x"
    "\<And>x. rg = Other x \<Longrightarrow> returned_by agents x"
    by blast+
  have s3: "status ?s3 = status state'"
    by (simp add: merge_frame)
  from status_merge_risk [of "Some rr'" ?s3] s3 prov(2)
  have s4: "status ?s4 = status state' \<or> (\<exists>x. returned_by agents x \<and> status ?s4 = status x)"
    by auto
  from status_merge_suggestion [of "Some rg" ?s4] s4 prov(3)
  have "status ?s5 = status state' \<or> (\<exists>x. returned_by agents x \<and> status ?s5 = status x)"
    by auto
  with prov(1) fin show ?thesis
    by auto
qed

lemma sequential_fields_kept:
  assumes failed: "task_failed True agents state label exc"
  shows "keeps_upstream_fields (dispatch_agent agents) \<longrightarrow>
       (label = ''clauses'' \<longrightarrow>
          extracted_clauses (fst (process True agents state)) = extracted_clauses state
          \<and> clause_count (fst (process True agents state)) = clause_count state)
     \<and> (label = ''summary'' \<longrightarrow>
          metadata_summary (fst (process True agents state)) = metadata_summary state
          \<and> document_outline (fst (process True agents state)) = document_outline state
          \<and> key_entities (fst (process True agents state)) = key_entities state)
     \<and> (label = ''risk'' \<longrightarrow>
          risk_assessments (fst (process True agents state)) = risk_assessments state
          \<and> high_risk_count (fst (process True agents state)) = high_risk_count state
          \<and> overall_risk_score (fst (process True agents state)) = overall_risk_score state)"
    and "label = ''suggestion'' \<longrightarrow>
          adk_b_response (fst (process True agents state)) = adk_b_response state"
proof -
  obtain rc e1 t1 where c: "clauses_block agents state = (rc, e1, t1)"
    by (metis prod_cases3)
  obtain rs e2 t2 where m: "summary_block agents state = (rs, e2, t2)"
    by (metis prod_cases3)
  obtain rr e3 t3 where r: "risk_block agents state rc = (rr, e3, t3)"
    by (metis prod_cases3)
  obtain state' rr' rg e4 where g: "suggestion_block agents state rr = (state', rr', rg, e4)"
    by (metis prod_cases4)
  note fin = process_sequential(1) [OF c m r g]
  from failed have mem: "(label, exc) \<in> set (e1 @ e2 @ e3 @ e4)"
    by (simp add: task_failed_def process_sequential(2) [OF c m r g])
  note sg = suggestion_block_cases [OF g]
  from block_errors(1) [of _ _ agents state] c
  have b1: "\<And>l e. (l, e) \<in> set e1 \<Longrightarrow> l = ''clauses'' \<and> rc = Same" by simp
  from block_errors(2) [of _ _ agents state] m
  have b2: "\<And>l e. (l, e) \<in> set e2 \<Longrightarrow> l = ''summary'' \<and> rs = Same" by simp
  from block_errors(3) [of _ _ agents state rc] r
  have b3: "\<And>l e. (l, e) \<in> set e3 \<Longrightarrow> l = ''risk'' \<and> rr = Same" by simp
  from sg have b4: "\<And>l e. (l, e) \<in> set e4 \<Longrightarrow> l = ''suggestion'' \<and> state' = state \<and> rg = Same"
    by blast
  have lc: "label = ''clauses'' \<Longrightarrow> rc = Same"
    using mem b1 b2 b3 b4 by fastforce
  have lm: "label = ''summary'' \<Longrightarrow> rs = Same"
    using mem b1 b2 b3 b4 by fastforce
  have lr: "label = ''risk'' \<Longrightarrow> rr' = Same"
    using mem b1 b2 b3 b4 sg by fastforce
  have lg: "label = ''suggestion'' \<Longrightarrow> rg = Same \<and> state' = state"
    using mem b1 b2 b3 b4 by fastforce
  show "label = ''suggestion'' \<longrightarrow>
          adk_b_response (fst (process True agents state)) = adk_b_response state"
    using lg by (auto simp: fin Let_def merge_frame merge_suggestion_Same)
  show "keeps_upstream_fields (dispatch_agent agents) \<longrightarrow>
       (label = ''clauses'' \<longrightarrow>
          extracted_clauses (fst (process True agents state)) = extracted_clauses state
          \<and> clause_count (fst (process True agents state)) = clause_count state)
     \<and> (label = ''summary'' \<longrightarrow>
          metadata_summary (fst (process True agents state)) = metadata_summary state
          \<and> document_outline (fst (process True agents state)) = document_outline state
          \<and> key_entities (fst (process True agents state)) = key_entities state)
     \<and> (label = ''risk'' \<longrightarrow>
          risk_assessments (fst (process True agents state)) = risk_assessments state
          \<and> high_risk_count (fst (process True agents state)) = high_risk_count state
          \<and> overall_risk_score (fst (process True agents state)) = overall_risk_score state)"
  proof
    assume k: "keeps_upstream_fields (dispatch_agent agents)"
    from sg k have st: "extracted_clauses state' = extracted_clauses state"
      "clause_count state' = clause_count state"
      "metadata_summary state' = metadata_summary state"
      "document_outline state' = document_outline state"
      "key_entities state' = key_entities state"
      "risk_assessments state' = risk_assessments state"
      "high_risk_count state' = high_risk_count state"
      "overall_risk_score state' = overall_risk_score state"
      by (auto simp: keeps_upstream_fields_def)
    show "(label = ''clauses'' \<longrightarrow>
          extracted_clauses (fst (process True agents state)) = extracted_clauses state
          \<and> clause_count (fst (process True agents state)) = clause_count state)
     \<and> (label = ''summary'' \<longrightarrow>
          metadata_summary (fst (process True agents state)) = metadata_summary state
          \<and> document_outline (fst (process True agents state)) = document_outline state
          \<and> key_entities (fst (process True agents state)) = key_entities state)
     \<and> (label = ''risk'' \<longrightarrow>
          risk_assessments (fst (process True agents state)) = risk_assessments state
          \<and> high_risk_count (fst (process True agents state)) = high_risk_count state
          \<and> overall_risk_score (fst (process True agents state)) = overall_risk_score state)"
      using lc lm lr st
      by (auto simp: fin Let_def merge_frame merge_clauses_Same merge_summary_Same
          merge_risk_Same)
  qed
qed

lemmas sequential_defs =
  task_failed_def run_parallel_execution_def execute_sequential_tasks_def
  clauses_block_def summary_block_def risk_block_def suggestion_block_def
  run_clause_task_def run_summary_task_def run_risk_task_def run_suggestion_task_def
  agents_failing_def boom_def processing_state_def initial_state_def


text \<open>A clause or summary agent that raises makes its task fail.\<close>

lemma task_failed_clauses:
  "clause_agent agents state = Inl exc \<Longrightarrow> task_failed True agents state ''clauses'' exc"
  "summary_agent agents state = Inl exc \<Longrightarrow> task_failed True agents state ''summary'' exc"
proof -
  obtain rc e1 t1 where c: "clauses_block agents state = (rc, e1, t1)"
    by (metis prod_cases3)
  obtain rs e2 t2 where m: "summary_block agents state = (rs, e2, t2)"
    by (metis prod_cases3)
  obtain rr e3 t3 where r: "risk_block agents state rc = (rr, e3, t3)"
    by (metis prod_cases3)
  obtain state' rr' rg e4 where g: "suggestion_block agents state rr = (state', rr', rg, e4)"
    by (metis prod_cases4)
  note errs = process_sequential(2) [OF c m r g]
  show "clause_agent agents state = Inl exc \<Longrightarrow> task_failed True agents state ''clauses'' exc"
    using c by (auto simp: task_failed_def errs clauses_block_def run_clause_task_def)
  show "summary_agent agents state = Inl exc \<Longrightarrow> task_failed True agents state ''summary'' exc"
    using m by (auto simp: task_failed_def errs summary_block_def run_summary_task_def)
qed

lemma risk_block_merged_state:
  "clauses_block agents state = (rc, e1, t1) \<Longrightarrow>
   risk_block agents state rc =
     (case risk_agent agents (merged_state agents state) of
        Inr r \<Rightarrow> (Other r, [], [Ran ''risk'', Slept 15])
      | Inl e \<Rightarrow> (Same, [(''risk'', e)], [Ran ''risk'']))"
  by (auto simp: risk_block_def run_risk_task_def clauses_block_def merged_state_def
      split: sum.splits)

lemma block_error_shapes:
  "clauses_block agents state = (rc, e1, t1) \<Longrightarrow> e1 = [] \<or> (\<exists>e. e1 = [(''clauses'', e)])"
  "summary_block agents state = (rs, e2, t2) \<Longrightarrow> e2 = [] \<or> (\<exists>e. e2 = [(''summary'', e)])"
  "risk_block agents state rc = (rr, e3, t3) \<Longrightarrow> e3 = [] \<or> (\<exists>e. e3 = [(''risk'', e)])"
  "suggestion_block agents state rr = (state', rr', rg, e4) \<Longrightarrow>
     e4 = [] \<or> (\<exists>e. e4 = [(''suggestion'', e)])"
  by (auto simp: clauses_block_def summary_block_def risk_block_def suggestion_block_def
      split: sum.splits state_ref.splits)

lemma task_string_once:
  assumes "e1 = [] \<or> (\<exists>e. e1 = [(''clauses'', e)])"
    and "e2 = [] \<or> (\<exists>e. e2 = [(''summary'', e)])"
    and "e3 = [] \<or> (\<exists>e. e3 = [(''risk'', e)])"
    and "e4 = [] \<or> (\<exists>e. e4 = [(''suggestion'', e)])"
    and "(label, exc) \<in> set (e1 @ e2 @ e3 @ e4)"
  shows "count_list (task_error_strings (e1 @ e2 @ e3 @ e4)) (label @ ''_task: '' @ message exc)
           = 1"
  using assms by (auto simp: task_error_strings_def)


lemma sequential_upstream_merged:
  "clause_agent agents state = Inr c \<Longrightarrow>
     extracted_clauses (fst (process True agents state)) = extracted_clauses c
     \<and> clause_count (fst (process True agents state)) = clause_count c"
  "summary_agent agents state = Inr m \<Longrightarrow>
     metadata_summary (fst (process True agents state)) = metadata_summary m
     \<and> document_outline (fst (process True agents state)) = document_outline m
     \<and> key_entities (fst (process True agents state)) = key_entities m"
proof -
  obtain rc e1 t1 where c: "clauses_block agents state = (rc, e1, t1)"
    by (metis prod_cases3)
  obtain rs e2 t2 where m: "summary_block agents state = (rs, e2, t2)"
    by (metis prod_cases3)
  obtain rr e3 t3 where r: "risk_block agents state rc = (rr, e3, t3)"
    by (metis prod_cases3)
  obtain state' rr' rg e4 where g: "suggestion_block agents state rr = (state', rr', rg, e4)"
    by (metis prod_cases4)
  note fin = process_sequential(1) [OF c m r g]
  show "clause_agent agents state = Inr c \<Longrightarrow>
     extracted_clauses (fst (process True agents state)) = extracted_clauses c
     \<and> clause_count (fst (process True agents state)) = clause_count c"
    using c by (auto simp: fin Let_def merge_frame merge_clauses_Other clauses_block_def
        run_clause_task_def)
  show "summary_agent agents state = Inr m \<Longrightarrow>
     metadata_summary (fst (process True agents state)) = metadata_summary m
     \<and> document_outline (fst (process True agents state)) = document_outline m
     \<and> key_entities (fst (process True agents state)) = key_entities m"
    using m by (auto simp: fin Let_def merge_frame merge_summary_Other summary_block_def
        run_summary_task_def)
qed

lemma sequential_risk_returned:
  assumes risk: "risk_agent agents (merged_state agents state) = Inr r"
  shows "dispatch_agent agents r = Inr r' \<Longrightarrow>
       risk_assessments (fst (process True agents state)) = risk_assessments r'
       \<and> high_risk_count (fst (process True agents state)) = high_risk_count r'
       \<and> overall_risk_score (fst (process True agents state)) = overall_risk_score r'
       \<and> (status r' \<noteq> [] \<longrightarrow> status (fst (process True agents state)) = status r')
       \<and> (\<forall>a. adk_b_response r' = Some a \<and> truthy a \<longrightarrow>
             adk_b_response (fst (process True agents state)) = Some a)
       \<and> errors (fst (process True agents state))
           = errors state
             @ task_error_strings (fst (snd (run_parallel_execution True agents state)))
             @ errors r' @ errors r'"
    and "dispatch_agent agents r = Inl e \<Longrightarrow>
       task_failed True agents state ''suggestion'' e
       \<and> risk_assessments (fst (process True agents state)) = risk_assessments r
       \<and> high_risk_count (fst (process True agents state)) = high_risk_count r
       \<and> overall_risk_score (fst (process True agents state)) = overall_risk_score r"
proof -
  obtain rc e1 t1 where c: "clauses_block agents state = (rc, e1, t1)"
    by (metis prod_cases3)
  obtain rs e2 t2 where m: "summary_block agents state = (rs, e2, t2)"
    by (metis prod_cases3)
  from risk_block_merged_state [OF c] risk
  have r: "risk_block agents state rc = (Other r, [], [Ran ''risk'', Slept 15])"
    by simp
  {
    assume d: "dispatch_agent agents r = Inr r'"
    then have g: "suggestion_block agents state (Other r) = (state, Other r', Other r', [])"
      by (simp add: suggestion_block_def run_suggestion_task_def)
    note fin = process_sequential [OF c m r g]
    show "risk_assessments (fst (process True agents state)) = risk_assessments r'
       \<and> high_risk_count (fst (process True agents state)) = high_risk_count r'
       \<and> overall_risk_score (fst (process True agents state)) = overall_risk_score r'
       \<and> (status r' \<noteq> [] \<longrightarrow> status (fst (process True agents state)) = status r')
       \<and> (\<forall>a. adk_b_response r' = Some a \<and> truthy a \<longrightarrow>
             adk_b_response (fst (process True agents state)) = Some a)
       \<and> errors (fst (process True agents state))
           = errors state
             @ task_error_strings (fst (snd (run_parallel_execution True agents state)))
             @ errors r' @ errors r'"
      by (simp add: fin Let_def merge_risk_Other merge_suggestion_Other
          errors_merge_clauses errors_merge_summary)
  }
  {
    assume d: "dispatch_agent agents r = Inl e"
    then have g: "suggestion_block agents state (Other r)
        = (state, Other r, Same, [(''suggestion'', e)])"
      by (simp add: suggestion_block_def run_suggestion_task_def)
    note fin = process_sequential [OF c m r g]
    show "task_failed True agents state ''suggestion'' e
       \<and> risk_assessments (fst (process True agents state)) = risk_assessments r
       \<and> high_risk_count (fst (process True agents state)) = high_risk_count r
       \<and> overall_risk_score (fst (process True agents state)) = overall_risk_score r"
      by (simp add: fin Let_def merge_risk_Other merge_suggestion_Same task_failed_def)
  }
qed

lemma sequential_risk_raised:
  assumes risk: "risk_agent agents (merged_state agents state) = Inl e"
  shows "task_failed True agents state ''risk'' e"
    and "dispatch_agent agents state = Inr s' \<Longrightarrow>
       status (fst (process True agents state)) = status s'
       \<and> adk_b_response (fst (process True agents state)) = adk_b_response s'"
    and "dispatch_agent agents state = Inl e' \<Longrightarrow>
       task_failed True agents state ''suggestion'' e'"
proof -
  obtain rc e1 t1 where c: "clauses_block agents state = (rc, e1, t1)"
    by (metis prod_cases3)
  obtain rs e2 t2 where m: "summary_block agents state = (rs, e2, t2)"
    by (metis prod_cases3)
  from risk_block_merged_state [OF c] risk
  have r: "risk_block agents state rc = (Same, [(''risk'', e)], [Ran ''risk''])"
    by simp
  obtain state' rr' rg e4 where g0: "suggestion_block agents state Same = (state', rr', rg, e4)"
    by (metis prod_cases4)
  from process_sequential(2) [OF c m r g0]
  show "task_failed True agents state ''risk'' e"
    by (simp add: task_failed_def)
  {
    assume d: "dispatch_agent agents state = Inr s'"
    then have g: "suggestion_block agents state Same = (s', Same, Same, [])"
      by (simp add: suggestion_block_def run_suggestion_task_def)
    note fin = process_sequential [OF c m r g]
    show "status (fst (process True agents state)) = status s'
       \<and> adk_b_response (fst (process True agents state)) = adk_b_response s'"
      by (simp add: fin Let_def merge_risk_Same merge_suggestion_Same merge_frame)
  }
  {
    assume d: "dispatch_agent agents state = Inl e'"
    then have g: "suggestion_block agents state Same = (state, Same, Same, [(''suggestion'', e')])"
      by (simp add: suggestion_block_def run_suggestion_task_def)
    note fin = process_sequential [OF c m r g]
    show "task_failed True agents state ''suggestion'' e'"
      by (simp add: fin task_failed_def)
  }
qed

lemma task_error_string_once:
  assumes "task_failed True agents state label exc"
  shows "count_list (task_error_strings (fst (snd (run_parallel_execution True agents state))))
           (label @ ''_task: '' @ message exc) = 1"
proof -
  obtain rc e1 t1 where c: "clauses_block agents state = (rc, e1, t1)"
    by (metis prod_cases3)
  obtain rs e2 t2 where m: "summary_block agents state = (rs, e2, t2)"
    by (metis prod_cases3)
  obtain rr e3 t3 where r: "risk_block agents state rc = (rr, e3, t3)"
    by (metis prod_cases3)
  obtain state' rr' rg e4 where g: "suggestion_block agents state rr = (state', rr', rg, e4)"
    by (metis prod_cases4)
  note errs = process_sequential(2) [OF c m r g]
  from assms have "(label, exc) \<in> set (e1 @ e2 @ e3 @ e4)"
    by (simp add: task_failed_def errs)
  from task_string_once [OF block_error_shapes(1) [OF c] block_error_shapes(2) [OF m]
      block_error_shapes(3) [OF r] block_error_shapes(4) [OF g] this]
  show ?thesis
    by (simp add: errs)
qed

lemma task_failed_upstream:
  assumes "task_failed True agents state label exc"
  shows "label = ''clauses'' \<Longrightarrow>
           clause_agent agents state = Inl exc \<and> merged_state agents state = state"
    and "label = ''summary'' \<Longrightarrow> summary_agent agents state = Inl exc"
    and "label = ''risk'' \<Longrightarrow> risk_agent agents (merged_state agents state) = Inl exc"
proof -
  obtain rc e1 t1 where c: "clauses_block agents state = (rc, e1, t1)"
    by (metis prod_cases3)
  obtain rs e2 t2 where m: "summary_block agents state = (rs, e2, t2)"
    by (metis prod_cases3)
  obtain rr e3 t3 where r: "risk_block agents state rc = (rr, e3, t3)"
    by (metis prod_cases3)
  obtain state' rr' rg e4 where g: "suggestion_block agents state rr = (state', rr', rg, e4)"
    by (metis prod_cases4)
  note errs = process_sequential(2) [OF c m r g]
  from assms have mem: "(label, exc) \<in> set (e1 @ e2 @ e3 @ e4)"
    by (simp add: task_failed_def errs)
  note sh = block_error_shapes(1) [OF c] block_error_shapes(2) [OF m]
      block_error_shapes(3) [OF r] block_error_shapes(4) [OF g]
  {
    assume "label = ''clauses''"
    with mem sh have "e1 = [(''clauses'', exc)]"
      by auto
    with c show "clause_agent agents state = Inl exc \<and> merged_state agents state = state"
      by (auto simp: clauses_block_def run_clause_task_def merged_state_def split: sum.splits)
  }
  {
    assume "label = ''summary''"
    with mem sh have "e2 = [(''summary'', exc)]"
      by auto
    with m show "summary_agent agents state = Inl exc"
      by (auto simp: summary_block_def run_summary_task_def split: sum.splits)
  }
  {
    assume "label = ''risk''"
    with mem sh have "e3 = [(''risk'', exc)]"
      by auto
    with r risk_block_merged_state [OF c] show "risk_agent agents (merged_state agents state) = Inl exc"
      by (auto split: sum.splits)
  }
qed

lemma agents_failing_keep_upstream:
  "keeps_upstream_fields (dispatch_agent (agents_failing labels env))"
proof (cases "''suggestion'' \<in> set labels")
  case True
  then show ?thesis
    by (simp add: agents_failing_def keeps_upstream_fields_def)
next
  case False
  then show ?thesis
    using dispatch_process_keeps_upstream [of env] by (simp add: agents_failing_def)
qed

text \<open>
  Claim C3, as the code has it. In serialized mode, when a stage task raises:

  \<^item> the string \<open><label>_task: <error>\<close> is among the errors of the returned state, and
    it occurs exactly once among the strings that \<^verbatim>\<open>process\<close> appends for the failed
    tasks; when the risk task and the dispatch task return (the failed task is then the
    clause or the summary task) and the dispatch result does not carry the string, the
    returned error list holds it exactly once more than the list before the run;

  \<^item> the run is not aborted, and every stage executes on the values the state had: a
    clause task that raises leaves the risk agent with \<^verbatim>\<open>state\<close> as it was, a risk
    task that raises leaves the dispatch agent with \<^verbatim>\<open>state\<close> itself; what the clause,
    summary, risk and dispatch agents return is what the returned state holds (clause
    list and count, summary fields, risk fields, status, downstream answer), and what
    they raise is recorded as a task failure;

  \<^item> the fields the failed stage owns (clause list and count; summary, outline and
    entities; risk assessments, high-risk count and overall score; the downstream answer)
    have the values they had before the stage, given that the dispatch agent does not
    write the fields of the stages before it;

  \<^item> the status of the returned state is the status the state had or a status that the
    risk agent or the dispatch agent returned: the scheduler writes no status of its own.
\<close>

theorem fail_open_merge:
  assumes "task_failed True agents state label exc"
  shows "label @ ''_task: '' @ message exc \<in> set (errors (fst (process True agents state)))
     \<and> count_list (task_error_strings (fst (snd (run_parallel_execution True agents state))))
         (label @ ''_task: '' @ message exc) = 1
     \<and> (\<forall>r r'. risk_agent agents (merged_state agents state) = Inr r
            \<and> dispatch_agent agents r = Inr r'
            \<and> label @ ''_task: '' @ message exc \<notin> set (errors r') \<longrightarrow>
          (label = ''clauses'' \<or> label = ''summary'')
          \<and> count_list (errors (fst (process True agents state)))
                (label @ ''_task: '' @ message exc)
              = count_list (errors state) (label @ ''_task: '' @ message exc) + 1)
     \<and> filter is_ran (snd (process True agents state))
         = [Ran ''clauses'', Ran ''summary'', Ran ''risk'', Ran ''suggestion'']
     \<and> (label = ''clauses'' \<longrightarrow>
          clause_agent agents state = Inl exc \<and> merged_state agents state = state)
     \<and> (label = ''summary'' \<longrightarrow> summary_agent agents state = Inl exc)
     \<and> (label = ''risk'' \<longrightarrow> risk_agent agents (merged_state agents state) = Inl exc)
     \<and> (\<forall>c. clause_agent agents state = Inr c \<longrightarrow>
          extracted_clauses (fst (process True agents state)) = extracted_clauses c
          \<and> clause_count (fst (process True agents state)) = clause_count c)
     \<and> (\<forall>m. summary_agent agents state = Inr m \<longrightarrow>
          metadata_summary (fst (process True agents state)) = metadata_summary m
          \<and> document_outline (fst (process True agents state)) = document_outline m
          \<and> key_entities (fst (process True agents state)) = key_entities m)
     \<and> (\<forall>r. risk_agent agents (merged_state agents state) = Inr r \<longrightarrow>
          (\<forall>r'. dispatch_agent agents r = Inr r' \<longrightarrow>
             risk_assessments (fst (process True agents state)) = risk_assessments r'
             \<and> high_risk_count (fst (process True agents state)) = high_risk_count r'
             \<and> overall_risk_score (fst (process True agents state)) = overall_risk_score r'
             \<and> (status r' \<noteq> [] \<longrightarrow> status (fst (process True agents state)) = status r')
             \<and> (\<forall>a. adk_b_response r' = Some a \<and> truthy a \<longrightarrow>
                   adk_b_response (fst (process True agents state)) = Some a))
          \<and> (\<forall>e. dispatch_agent agents r = Inl e \<longrightarrow>
                task_failed True agents state ''suggestion'' e
                \<and> risk_assessments (fst (process True agents state)) = risk_assessments r
                \<and> high_risk_count (fst (process True agents state)) = high_risk_count r
                \<and> overall_risk_score (fst (process True agents state))
                    = overall_risk_score r))
     \<and> (\<forall>e. risk_agent agents (merged_state agents state) = Inl e \<longrightarrow>
          task_failed True agents state ''risk'' e
          \<and> (\<forall>s'. dispatch_agent agents state = Inr s' \<longrightarrow>
                status (fst (process True agents state)) = status s'
                \<and> adk_b_response (fst (process True agents state)) = adk_b_response s')
          \<and> (\<forall>e'. dispatch_agent agents state = Inl e' \<longrightarrow>
                task_failed True agents state ''suggestion'' e'))
     \<and> (keeps_upstream_fields (dispatch_agent agents) \<longrightarrow>
          (label = ''clauses'' \<longrightarrow>
             extracted_clauses (fst (process True agents state)) = extracted_clauses state
             \<and> clause_count (fst (process True agents state)) = clause_count state)
        \<and> (label = ''summary'' \<longrightarrow>
             metadata_summary (fst (process True agents state)) = metadata_summary state
             \<and> document_outline (fst (process True agents state)) = document_outline state
             \<and> key_entities (fst (process True agents state)) = key_entities state)
        \<and> (label = ''risk'' \<longrightarrow>
             risk_assessments (fst (process True agents state)) = risk_assessments state
             \<and> high_risk_count (fst (process True agents state)) = high_risk_count state
             \<and> overall_risk_score (fst (process True agents state))
                 = overall_risk_score state))
     \<and> (label = ''suggestion'' \<longrightarrow>
          adk_b_response (fst (process True agents state)) = adk_b_response state)
     \<and> (status (fst (process True agents state)) = status state
        \<or> (\<exists>s'. returned_by agents s'
                \<and> status (fst (process True agents state)) = status s'))"
proof -
  let ?str = "label @ ''_task: '' @ message exc"
  note once = task_error_string_once [OF assms]
  have cnt: "\<forall>r r'. risk_agent agents (merged_state agents state) = Inr r
            \<and> dispatch_agent agents r = Inr r' \<and> ?str \<notin> set (errors r') \<longrightarrow>
          (label = ''clauses'' \<or> label = ''summary'')
          \<and> count_list (errors (fst (process True agents state))) ?str
              = count_list (errors state) ?str + 1"
  proof (intro allI impI)
    fix r r'
    assume h: "risk_agent agents (merged_state agents state) = Inr r
            \<and> dispatch_agent agents r = Inr r' \<and> ?str \<notin> set (errors r')"
    then have r: "risk_agent agents (merged_state agents state) = Inr r"
      and d: "dispatch_agent agents r = Inr r'" and n: "?str \<notin> set (errors r')"
      by simp_all
    from sequential_risk_returned(1) [OF r d]
    have "errors (fst (process True agents state))
           = errors state
             @ task_error_strings (fst (snd (run_parallel_execution True agents state)))
             @ errors r' @ errors r'"
      by simp
    with once n have c: "count_list (errors (fst (process True agents state))) ?str
              = count_list (errors state) ?str + 1"
      by (simp add: count_list_0_iff)
    obtain rc e1 t1 where cb: "clauses_block agents state = (rc, e1, t1)"
      by (metis prod_cases3)
    obtain rs e2 t2 where mb: "summary_block agents state = (rs, e2, t2)"
      by (metis prod_cases3)
    from risk_block_merged_state [OF cb] r
    have rb: "risk_block agents state rc = (Other r, [], [Ran ''risk'', Slept 15])"
      by simp
    from d have gb: "suggestion_block agents state (Other r) = (state, Other r', Other r', [])"
      by (simp add: suggestion_block_def run_suggestion_task_def)
    from assms have "(label, exc) \<in> set (e1 @ e2)"
      by (simp add: task_failed_def process_sequential(2) [OF cb mb rb gb])
    with block_error_shapes(1) [OF cb] block_error_shapes(2) [OF mb]
    have "label = ''clauses'' \<or> label = ''summary''"
      by auto
    with c show "(label = ''clauses'' \<or> label = ''summary'')
          \<and> count_list (errors (fst (process True agents state))) ?str
              = count_list (errors state) ?str + 1"
      by simp
  qed
  note up = task_failed_upstream [OF assms]
  have c5: "label = ''clauses'' \<longrightarrow>
          clause_agent agents state = Inl exc \<and> merged_state agents state = state"
    using up(1) by blast
  have c6: "label = ''summary'' \<longrightarrow> summary_agent agents state = Inl exc"
    using up(2) by blast
  have c7: "label = ''risk'' \<longrightarrow> risk_agent agents (merged_state agents state) = Inl exc"
    using up(3) by blast
  have c8: "\<forall>c. clause_agent agents state = Inr c \<longrightarrow>
          extracted_clauses (fst (process True agents state)) = extracted_clauses c
          \<and> clause_count (fst (process True agents state)) = clause_count c"
    using sequential_upstream_merged(1) [of agents state] by blast
  have c9: "\<forall>m. summary_agent agents state = Inr m \<longrightarrow>
          metadata_summary (fst (process True agents state)) = metadata_summary m
          \<and> document_outline (fst (process True agents state)) = document_outline m
          \<and> key_entities (fst (process True agents state)) = key_entities m"
    using sequential_upstream_merged(2) [of agents state] by blast
  have c10: "\<forall>r. risk_agent agents (merged_state agents state) = Inr r \<longrightarrow>
          (\<forall>r'. dispatch_agent agents r = Inr r' \<longrightarrow>
             risk_assessments (fst (process True agents state)) = risk_assessments r'
             \<and> high_risk_count (fst (process True agents state)) = high_risk_count r'
             \<and> overall_risk_score (fst (process True agents state)) = overall_risk_score r'
             \<and> (status r' \<noteq> [] \<longrightarrow> status (fst (process True agents state)) = status r')
             \<and> (\<forall>a. adk_b_response r' = Some a \<and> truthy a \<longrightarrow>
                   adk_b_response (fst (process True agents state)) = Some a))
          \<and> (\<forall>e. dispatch_agent agents r = Inl e \<longrightarrow>
                task_failed True agents state ''suggestion'' e
                \<and> risk_assessments (fst (process True agents state)) = risk_assessments r
                \<and> high_risk_count (fst (process True agents state)) = high_risk_count r
                \<and> overall_risk_score (fst (process True agents state))
                    = overall_risk_score r)"
  proof (intro allI impI conjI)
    fix r r'
    assume r: "risk_agent agents (merged_state agents state) = Inr r"
      and d: "dispatch_agent agents r = Inr r'"
    note f = sequential_risk_returned(1) [OF r d]
    from f show "risk_assessments (fst (process True agents state)) = risk_assessments r'"
      by simp
    from f show "high_risk_count (fst (process True agents state)) = high_risk_count r'"
      by simp
    from f show "overall_risk_score (fst (process True agents state)) = overall_risk_score r'"
      by simp
    {
      assume "status r' \<noteq> []"
      with f show "status (fst (process True agents state)) = status r'"
        by simp
    }
    {
      fix a
      assume "adk_b_response r' = Some a \<and> truthy a"
      with f show "adk_b_response (fst (process True agents state)) = Some a"
        by blast
    }
  next
    fix r e
    assume r: "risk_agent agents (merged_state agents state) = Inr r"
      and d: "dispatch_agent agents r = Inl e"
    note f = sequential_risk_returned(2) [OF r d]
    from f show "task_failed True agents state ''suggestion'' e"
      by simp
    from f show "risk_assessments (fst (process True agents state)) = risk_assessments r"
      by simp
    from f show "high_risk_count (fst (process True agents state)) = high_risk_count r"
      by simp
    from f show "overall_risk_score (fst (process True agents state)) = overall_risk_score r"
      by simp
  qed
  have c11: "\<forall>e. risk_agent agents (merged_state agents state) = Inl e \<longrightarrow>
          task_failed True agents state ''risk'' e
          \<and> (\<forall>s'. dispatch_agent agents state = Inr s' \<longrightarrow>
                status (fst (process True agents state)) = status s'
                \<and> adk_b_response (fst (process True agents state)) = adk_b_response s')
          \<and> (\<forall>e'. dispatch_agent agents state = Inl e' \<longrightarrow>
                task_failed True agents state ''suggestion'' e')"
    using sequential_risk_raised [of agents state] by blast
  note kept = sequential_fields_kept [OF assms]
  show ?thesis
    using task_error_recorded [OF assms] once cnt sequential_all_ran [of agents state]
      c5 c6 c7 c8 c9 c10 c11 kept(1) kept(2) sequential_status_provenance [of agents state]
    by (intro conjI)
qed

theorem fail_open_merge_witness:
  "count_list (errors (fst (process True (agents_failing [''clauses''] unreachable)
                             processing_state))) ''clauses_task: boom'' = 1
   \<and> filter is_ran (snd (process True (agents_failing [''clauses''] unreachable)
                          processing_state))
       = [Ran ''clauses'', Ran ''summary'', Ran ''risk'', Ran ''suggestion'']
   \<and> extracted_clauses (fst (process True (agents_failing [''clauses''] unreachable)
                          processing_state)) = []
   \<and> clause_count (fst (process True (agents_failing [''clauses''] unreachable)
                          processing_state)) = 0
   \<and> status (fst (process True (agents_failing [''clauses''] unreachable) processing_state))
       = ''completed''
   \<and> status (fst (process True (agents_failing [''risk''] unreachable) processing_state))
       = ''completed''"
proof -
  let ?A = "agents_failing [''clauses''] unreachable"
  let ?B = "agents_failing [''risk''] unreachable"
  let ?F = "fst (process True ?A processing_state)"
  let ?G = "fst (process True ?B processing_state)"
  let ?d = "fst (dispatch_process unreachable processing_state)"
  have f: "task_failed True ?A processing_state ''clauses'' boom"
    by (simp add: sequential_defs dispatch_process_def)
  have g: "task_failed True ?B processing_state ''risk'' boom"
    by (simp add: sequential_defs dispatch_process_def)
  have s: "extracted_clauses processing_state = []" "clause_count processing_state = 0"
    "errors processing_state = []"
    by (simp_all add: processing_state_def initial_state_def)
  have d: "errors ?d = []" "status ?d = ''completed''"
    by (simp_all add: dispatch_process_def unreachable_def processing_state_def
        initial_state_def)
  have rk: "risk_agent ?A processing_state = Inr processing_state"
    and dk: "dispatch_agent ?A processing_state = Inr ?d"
    and dr: "dispatch_agent ?B processing_state = Inr ?d"
    by (simp_all add: agents_failing_def)
  note t = fail_open_merge [OF f]
  note u = fail_open_merge [OF g]
  from t [THEN conjunct2, THEN conjunct2, THEN conjunct2, THEN conjunct2, THEN conjunct1]
  have m: "merged_state ?A processing_state = processing_state"
    by simp
  from t [THEN conjunct2, THEN conjunct2, THEN conjunct1,
      THEN spec [where x = processing_state], THEN spec [where x = "?d"]]
    m rk dk d(1) s(3)
  have 1: "count_list (errors ?F) ''clauses_task: boom'' = 1"
    by (simp add: boom_def)
  note 2 = t [THEN conjunct2, THEN conjunct2, THEN conjunct2, THEN conjunct1]
  from t [THEN conjunct2, THEN conjunct2, THEN conjunct2, THEN conjunct2, THEN conjunct2, THEN conjunct2, THEN conjunct2, THEN conjunct2, THEN conjunct2, THEN conjunct2, THEN conjunct2, THEN conjunct1] agents_failing_keep_upstream [of "[''clauses'']" unreachable] s
  have 3: "extracted_clauses ?F = []" "clause_count ?F = 0"
    by simp_all
  from t [THEN conjunct2, THEN conjunct2, THEN conjunct2, THEN conjunct2, THEN conjunct2, THEN conjunct2, THEN conjunct2, THEN conjunct2, THEN conjunct2, THEN conjunct1,
      THEN spec [where x = processing_state]] m rk
  have "\<forall>r'. dispatch_agent ?A processing_state = Inr r' \<longrightarrow>
             (status r' \<noteq> [] \<longrightarrow> status ?F = status r')"
    by simp
  with dk d(2) have 4: "status ?F = ''completed''"
    by simp
  from u [THEN conjunct2, THEN conjunct2, THEN conjunct2, THEN conjunct2, THEN conjunct2, THEN conjunct2, THEN conjunct1]
  have r: "risk_agent ?B (merged_state ?B processing_state) = Inl boom"
    by simp
  from u [THEN conjunct2, THEN conjunct2, THEN conjunct2, THEN conjunct2, THEN conjunct2, THEN conjunct2, THEN conjunct2, THEN conjunct2, THEN conjunct2, THEN conjunct2, THEN conjunct1,
      THEN spec [where x = boom]] r
  have "\<forall>s'. dispatch_agent ?B processing_state = Inr s' \<longrightarrow> status ?G = status s'"
    by simp
  with dr d(2) have 5: "status ?G = ''completed''"
    by simp
  from 1 2 3 4 5 show ?thesis
    by simp
qed

text \<open>
  A clause task that raises while the state is \<open>processing\<close>: the run ends with the status
  \<open>completed\<close> that the dispatch stage sets, not with \<open>completed_with_warning\<close>. A risk
  task that raises: its error string is in the errors four times, not once. A dispatch
  task that raises: its error string is in the errors twice. A clause task and a risk task
  that both raise: the error string of the clause task is in the errors four times.
\<close>

theorem fail_open_no_downgrade:
  "task_failed True (agents_failing [''clauses''] unreachable) processing_state ''clauses'' boom
   \<and> status processing_state = ''processing''
   \<and> status (fst (process True (agents_failing [''clauses''] unreachable) processing_state))
       = ''completed''
   \<and> task_failed True (agents_failing [''risk''] unreachable) processing_state ''risk'' boom
   \<and> errors (fst (process True (agents_failing [''risk''] unreachable) processing_state))
       = [''risk_task: boom'', ''risk_task: boom'', ''risk_task: boom'', ''risk_task: boom'']
   \<and> task_failed True (agents_failing [''suggestion''] unreachable) processing_state
         ''suggestion'' boom
   \<and> errors (fst (process True (agents_failing [''suggestion''] unreachable)
                    processing_state))
       = [''suggestion_task: boom'', ''suggestion_task: boom'']
   \<and> task_failed True (agents_failing [''clauses'', ''risk''] unreachable) processing_state
         ''clauses'' boom
   \<and> count_list (errors (fst (process True (agents_failing [''clauses'', ''risk''] unreachable)
                                processing_state))) ''clauses_task: boom'' = 4"
  by (simp add: process_def sequential_defs dispatch_process_def merge_simps
     task_error_strings_def unreachable_def)




text \<open>
  Claim C8, at a serialized run whose clause, summary and risk stages return a state that
  is ready for suggestions, and whose downstream service refuses all three connections.
  The dispatch stage posts three times with the timeout of 10 and 180 seconds, sleeping 5
  and 10 seconds between the posts, and appends one entry about the failure to the errors
  of the dictionary it works on. The state that \<^verbatim>\<open>process\<close> returns has the status
  \<open>completed_with_warning\<close> and an \<open>adk_b_response\<close> with status \<open>dispatch_failed\<close>, but
  its error list holds the entry twice, not once: the risk result and the suggestion
  result are the same dictionary, and \<^verbatim>\<open>process\<close> appends its errors once for each.
\<close>

theorem dispatch_failure_listed_twice:
  "snd (dispatch_process unreachable (processing_state\<lparr>ready_for_suggestions := True\<rparr>))
     = [Post ''http://localhost:8002/generate_suggestions''
          (JDict [(''document_id'', JStr ''doc-1''), (''adk_a_data'', JDict [])]) (10, 180),
        SleepSeconds 5,
        Post ''http://localhost:8002/generate_suggestions''
          (JDict [(''document_id'', JStr ''doc-1''), (''adk_a_data'', JDict [])]) (10, 180),
        SleepSeconds 10,
        Post ''http://localhost:8002/generate_suggestions''
          (JDict [(''document_id'', JStr ''doc-1''), (''adk_a_data'', JDict [])]) (10, 180)]
   \<and> errors (fst (dispatch_process unreachable
                    (processing_state\<lparr>ready_for_suggestions := True\<rparr>)))
     = [''ADK-B dispatch failed after 3 attempts: connection refused'']
   \<and> errors (fst (process True (agents_failing [] unreachable)
                    (processing_state\<lparr>ready_for_suggestions := True\<rparr>)))
     = [''ADK-B dispatch failed after 3 attempts: connection refused'',
        ''ADK-B dispatch failed after 3 attempts: connection refused'']
   \<and> status (fst (process True (agents_failing [] unreachable)
                    (processing_state\<lparr>ready_for_suggestions := True\<rparr>)))
     = ''completed_with_warning''
   \<and> adk_b_response (fst (process True (agents_failing [] unreachable)
                            (processing_state\<lparr>ready_for_suggestions := True\<rparr>)))
     = Some (JDict [(''status'', JStr ''dispatch_failed''),
                    (''error'', JStr ''connection refused'')])"
  by (simp add: process_def sequential_defs dispatch_process_def merge_simps
     task_error_strings_def unreachable_def post_loop_1 post_loop_2 post_loop_3
     MAX_ATTEMPTS_def str_nat_digits str_last_error_def DISPATCH_TIMEOUT_def
     dispatch_endpoint_def dispatch_payload_def rstrip_slash_def)


section \<open>Properties of the rate limiters\<close>

lemma length_filter_mono:
  "(\<And>x. x \<in> set xs \<Longrightarrow> P x \<Longrightarrow> Q x) \<Longrightarrow> length (filter P xs) \<le> length (filter Q xs)"
  by (induction xs) auto

lemma covers_mono: "covers m b G h \<Longrightarrow> b \<le> b' \<Longrightarrow> covers m b' G h"
  unfolding covers_def by force

lemma covers_dropWhile:
  assumes s: "sorted_wrt (\<lambda>a b. a + mi \<le> b) G" and mi: "0 \<le> mi" and c: "covers m b G h"
  shows "covers m b G (dropWhile (\<lambda>x. x < b) h)"
proof (cases "takeWhile (\<lambda>x. x < b) h = []")
  case True
  then have "dropWhile (\<lambda>x. x < b) h = h"
    by (metis append_Nil takeWhile_dropWhile_id)
  with c show ?thesis by simp
next
  case False
  from c obtain older where G: "G = older @ h"
    unfolding covers_def by blast
  let ?t = "takeWhile (\<lambda>x. x < b) h" and ?d = "dropWhile (\<lambda>x. x < b) h"
  from False obtain x xs where h: "h = x # xs" and x: "x < b"
    by (cases h) (auto split: if_splits)
  have "\<forall>g\<in>set older. g + mi \<le> x"
    using s G h by (auto simp: sorted_wrt_append)
  with x mi have old: "\<forall>g\<in>set older. g < b" by fastforce
  have "\<forall>g\<in>set ?t. g < b"
    by (meson set_takeWhileD)
  with old have "\<forall>g\<in>set (older @ ?t). g < b" by auto
  moreover have "G = (older @ ?t) @ ?d"
    using G by simp
  ultimately show ?thesis
    unfolding covers_def by blast
qed

lemma covers_append_None:
  "covers None b G h \<Longrightarrow> covers None b (G @ [ts]) (h @ [ts])"
  unfolding covers_def by auto

lemma covers_deque_append:
  assumes c: "covers (Some n) b G h" and le: "length h \<le> n" and n: "0 < n"
  shows "covers (Some n) b (G @ [ts]) (deque_append n h ts)
     \<and> length (deque_append n h ts) \<le> n"
proof (cases "length h < n")
  case True
  then have d: "deque_append n h ts = h @ [ts]"
    by (simp add: deque_append_def)
  from c True obtain older where "G = older @ h" "\<forall>g\<in>set older. g < b"
    unfolding covers_def by auto
  then have "G @ [ts] = older @ (h @ [ts])" "\<forall>g\<in>set older. g < b"
    by simp_all
  with d True show ?thesis
    unfolding covers_def by auto
next
  case False
  with le have len: "length h = n" by simp
  with n obtain x xs where h: "h = x # xs"
    by (cases h) auto
  from len h have d: "deque_append n h ts = xs @ [ts]"
    by (simp add: deque_append_def)
  from c obtain older where "G = older @ h"
    unfolding covers_def by blast
  with h have "G @ [ts] = (older @ [x]) @ (xs @ [ts])" by simp
  moreover have "length (xs @ [ts]) = n"
    using len h by simp
  ultimately show ?thesis
    unfolding covers_def d by blast
qed

lemma dropWhile_all_ge:
  assumes s: "sorted_wrt (\<lambda>a b. a + mi \<le> b) (older @ h)" and mi: "0 \<le> (mi::real)"
  shows "\<forall>x\<in>set (dropWhile (\<lambda>x. x < b) h). b \<le> x"
proof (cases "dropWhile (\<lambda>x. x < b) h")
  case Nil
  show ?thesis unfolding Nil by simp
next
  case (Cons y ys)
  then have y: "\<not> y < b"
    by (metis hd_dropWhile list.sel(1) list.distinct(1))
  have "h = takeWhile (\<lambda>x. x < b) h @ y # ys"
    using Cons by (metis takeWhile_dropWhile_id)
  then have "older @ h = (older @ takeWhile (\<lambda>x. x < b) h) @ y # ys"
    by simp
  with s have "sorted_wrt (\<lambda>a b. a + mi \<le> b) (y # ys)"
    by (metis sorted_wrt_append)
  then have "\<forall>z\<in>set ys. y + mi \<le> z" by simp
  with y mi Cons show ?thesis by fastforce
qed

lemma few_recent:
  assumes s: "sorted_wrt (\<lambda>a b. a + mi \<le> b) G" and mi: "0 < mi"
    and W: "window_bounded rpm G" and last: "\<forall>g\<in>set G. g \<le> last_ts"
    and lm: "last_ts + mi \<le> now"
    and cov: "covers m (now - 60) G h1" and ge: "\<forall>x\<in>set h1. now - 60 \<le> x"
    and mx: "\<forall>n. m = Some n \<longrightarrow> rpm \<le> int n"
    and nn: "now \<le> now'"
    and dec: "int (length h1) < rpm \<or> (h1 \<noteq> [] \<and> hd h1 + 60 \<le> now')"
  shows "int (length (filter (\<lambda>g. now' - 60 < g) G)) < rpm"
proof -
  from cov obtain older where G: "G = older @ h1"
    and D: "(\<forall>g\<in>set older. g < now - 60) \<or> m = Some (length h1)"
    unfolding covers_def by blast
  have "\<forall>x\<in>set h1. last_ts - 60 < x \<and> x \<le> last_ts"
    using ge lm mi last G by fastforce
  then have "filter (\<lambda>x. last_ts - 60 < x \<and> x \<le> last_ts) h1 = h1"
    by (simp add: filter_id_conv)
  then have "length h1 \<le> window_count last_ts G"
    by (simp add: window_count_def G)
  moreover from W have "int (window_count last_ts G) \<le> rpm"
    by (simp add: window_bounded_def)
  ultimately have len: "int (length h1) \<le> rpm" by linarith
  from dec show ?thesis
  proof
    assume lt: "int (length h1) < rpm"
    with D mx have "\<forall>g\<in>set older. g < now - 60" by fastforce
    with nn have "filter (\<lambda>g. now' - 60 < g) older = []"
      by (fastforce simp: filter_empty_conv)
    then have "length (filter (\<lambda>g. now' - 60 < g) G) \<le> length h1"
      by (simp add: G)
    with lt show ?thesis by linarith
  next
    assume "h1 \<noteq> [] \<and> hd h1 + 60 \<le> now'"
    then obtain x xs where h1: "h1 = x # xs" and x: "x + 60 \<le> now'"
      by (cases h1) auto
    have "\<forall>g\<in>set older. g + mi \<le> x"
      using s G h1 by (auto simp: sorted_wrt_append)
    with x mi have "filter (\<lambda>g. now' - 60 < g) older = []"
      by (fastforce simp: filter_empty_conv)
    moreover from x have "\<not> now' - 60 < x" by simp
    ultimately have "length (filter (\<lambda>g. now' - 60 < g) G) \<le> length xs"
      by (simp add: G h1)
    with len h1 show ?thesis by simp
  qed
qed

lemma window_count_append:
  "window_count t (G @ [ts]) = window_count t G + (if t - 60 < ts \<and> ts \<le> t then 1 else 0)"
  by (simp add: window_count_def)

lemma window_bounded_append:
  assumes W: "window_bounded rpm G"
    and c: "int (length (filter (\<lambda>g. b - 60 < g) G)) < rpm" and b: "b \<le> ts"
  shows "window_bounded rpm (G @ [ts])"
  unfolding window_bounded_def
proof
  fix t
  show "int (window_count t (G @ [ts])) \<le> rpm"
  proof (cases "t - 60 < ts \<and> ts \<le> t")
    case False
    with W show ?thesis
      by (auto simp: window_count_append window_bounded_def)
  next
    case True
    with b have "\<And>x. t - 60 < x \<and> x \<le> t \<Longrightarrow> b - 60 < x" by linarith
    then have "window_count t G \<le> length (filter (\<lambda>g. b - 60 < g) G)"
      unfolding window_count_def by (intro length_filter_mono) blast
    with c True show ?thesis
      by (simp add: window_count_append)
  qed
qed

text \<open>
  A grant keeps the invariant: the history \<open>h1\<close> has been purged at \<open>now\<close>, the decision
  to grant is taken at \<open>now'\<close>, the history \<open>h2\<close> has been purged at \<open>now'\<close> or is \<open>h1\<close>,
  and \<open>ts\<close> is recorded.
\<close>

lemma grant_keeps_inv:
  assumes inv: "limiter_inv mi rpm m clock last_ts hist G"
    and mi: "0 < mi" and rpm: "1 \<le> rpm"
    and cn: "clock \<le> now" and lm: "last_ts + mi \<le> now"
    and nn: "now \<le> now'" and nt: "now' \<le> ts"
    and h1: "h1 = popleft_expired (now - 60) hist"
    and dec: "int (length h1) < rpm \<or> (h1 \<noteq> [] \<and> hd h1 + 60 \<le> now')"
    and h2: "h2 = h1 \<or> h2 = popleft_expired (now' - 60) h1"
    and hist': "hist' = (case m of None \<Rightarrow> h2 @ [ts] | Some n \<Rightarrow> deque_append n h2 ts)"
  shows "limiter_inv mi rpm m ts ts hist' (G @ [ts])"
proof -
  from inv have s: "sorted_wrt (\<lambda>a b. a + mi \<le> b) G"
    and last: "\<forall>g\<in>set G. g \<le> last_ts"
    and W: "window_bounded rpm G"
    and cov: "covers m (clock - 60) G hist"
    and mx: "\<forall>n. m = Some n \<longrightarrow> length hist \<le> n \<and> rpm \<le> int n"
    unfolding limiter_inv_def by blast+
  from mi have mi0: "0 \<le> mi" by simp
  from cov cn have "covers m (now - 60) G hist"
    by (auto intro: covers_mono)
  from covers_dropWhile [OF s mi0 this] h1
  have cov1: "covers m (now - 60) G h1"
    by (simp add: popleft_expired_def)
  from cov obtain older where G: "G = older @ hist"
    unfolding covers_def by blast
  from dropWhile_all_ge [of mi older hist "now - 60"] s G mi0 h1
  have ge: "\<forall>x\<in>set h1. now - 60 \<le> x"
    by (simp add: popleft_expired_def)
  from mx have mx': "\<forall>n. m = Some n \<longrightarrow> rpm \<le> int n" by blast
  from few_recent [OF s mi W last lm cov1 ge mx' nn dec]
  have few: "int (length (filter (\<lambda>g. now' - 60 < g) G)) < rpm" .
  have 1: "sorted_wrt (\<lambda>a b. a + mi \<le> b) (G @ [ts])"
    using s last lm nn nt by (fastforce simp: sorted_wrt_append)
  have 2: "\<forall>g\<in>set (G @ [ts]). g \<le> ts"
    using last lm mi nn nt by fastforce
  have 3: "window_bounded rpm (G @ [ts])"
    using window_bounded_append [OF W few nt] .
  from cov1 nn have cov1': "covers m (now' - 60) G h1"
    by (auto intro: covers_mono)
  from h2 cov1' covers_dropWhile [OF s mi0 cov1']
  have "covers m (now' - 60) G h2"
    by (auto simp: popleft_expired_def)
  with nt have cov2: "covers m (ts - 60) G h2"
    by (auto intro: covers_mono)
  have l1: "length h1 \<le> length hist"
    using h1 by (simp add: popleft_expired_def length_dropWhile_le)
  have l2: "length h2 \<le> length h1"
    using h2 by (auto simp: popleft_expired_def length_dropWhile_le)
  have 4: "covers m (ts - 60) (G @ [ts]) hist'
      \<and> (\<forall>n. m = Some n \<longrightarrow> length hist' \<le> n \<and> rpm \<le> int n)"
  proof (cases m)
    case None
    with cov2 hist' show ?thesis
      by (simp add: covers_append_None)
  next
    case (Some n)
    with mx l1 l2 rpm have "length h2 \<le> n" "0 < n" "rpm \<le> int n"
      by auto
    with covers_deque_append [of n "ts - 60" G h2 ts] cov2 Some hist'
    show ?thesis by simp
  qed
  from 1 2 3 4 show ?thesis
    unfolding limiter_inv_def by blast
qed

lemma purge_keeps_inv:
  assumes inv: "limiter_inv mi rpm m clock last_ts hist G"
    and mi: "0 < mi" and cn: "clock \<le> now"
  shows "limiter_inv mi rpm m now last_ts (popleft_expired (now - 60) hist) G"
proof -
  from inv have s: "sorted_wrt (\<lambda>a b. a + mi \<le> b) G"
    and cov: "covers m (clock - 60) G hist"
    and mx: "\<forall>n. m = Some n \<longrightarrow> length hist \<le> n \<and> rpm \<le> int n"
    unfolding limiter_inv_def by blast+
  from mi have mi0: "0 \<le> mi" by simp
  from cov cn have "covers m (now - 60) G hist"
    by (auto intro: covers_mono)
  from covers_dropWhile [OF s mi0 this]
  have "covers m (now - 60) G (popleft_expired (now - 60) hist)"
    by (simp add: popleft_expired_def)
  moreover have "length (popleft_expired (now - 60) hist) \<le> length hist"
    by (simp add: popleft_expired_def length_dropWhile_le)
  ultimately show ?thesis
    using inv mx unfolding limiter_inv_def by fastforce
qed

lemma inv_initial:
  "\<forall>n. m = Some n \<longrightarrow> rpm \<le> int n \<Longrightarrow> 1 \<le> rpm \<Longrightarrow>
   limiter_inv mi rpm m clock last_ts [] []"
  by (simp add: limiter_inv_def covers_def window_bounded_def window_count_def)

lemma inv_spaced:
  assumes "sorted_wrt (\<lambda>a b. a + mi \<le> b) G"
  shows "spaced mi G"
  unfolding spaced_def
proof (intro allI impI)
  fix i j
  assume h: "i < length G \<and> j < length G \<and> i \<noteq> j"
  then consider "i < j" | "j < i" by linarith
  then show "mi \<le> \<bar>G ! i - G ! j\<bar>"
  proof cases
    case 1
    with assms h have "G ! i + mi \<le> G ! j"
      by (simp add: sorted_wrt_iff_nth_less)
    then show ?thesis by linarith
  next
    case 2
    with assms h have "G ! j + mi \<le> G ! i"
      by (simp add: sorted_wrt_iff_nth_less)
    then show ?thesis by linarith
  qed
qed

lemma respect_keeps_inv:
  fixes rpm_env interval_env
  defines "rpm \<equiv> LLM_RPM_LIMIT rpm_env"
  defines "mi \<equiv> LLM_MIN_CALL_INTERVAL interval_env (LLM_RPM_LIMIT rpm_env)"
  defines "m \<equiv> Some (nat (max (LLM_RPM_LIMIT rpm_env) 10))"
  assumes inv: "limiter_inv mi rpm m clock (LAST_REQUEST_TS limiter) (REQUEST_HISTORY limiter) G"
    and mi: "0 < mi" and d: "delays_ok d"
    and res: "respect_rate_limits rpm_env interval_env d (clock, limiter) = (clock', limiter')"
  shows "limiter_inv mi rpm m clock' (LAST_REQUEST_TS limiter') (REQUEST_HISTORY limiter')
           (G @ [LAST_REQUEST_TS limiter'])"
proof -
  have rpm: "1 \<le> rpm"
    by (simp add: rpm_def LLM_RPM_LIMIT_def)
  define now1 where "now1 = clock + at_entry d"
  define wi where "wi = LAST_REQUEST_TS limiter + mi - now1"
  define now2 where "now2 = (if wi > 0 then now1 + wi + after_interval_sleep d else now1)"
  define h1 where "h1 = popleft_expired (now2 - 60) (REQUEST_HISTORY limiter)"
  define ww where "ww = 60 - (now2 - hd h1)"
  define now3 where "now3 = (if int (length h1) \<ge> rpm \<and> ww > 0
      then now2 + ww + after_window_sleep d else now2)"
  define h2 where "h2 = (if int (length h1) \<ge> rpm \<and> ww > 0
      then popleft_expired (now3 - 60) h1 else h1)"
  define ts where "ts = now3 + at_stamp d"
  have result: "respect_rate_limits rpm_env interval_env d (clock, limiter) =
      (ts, \<lparr>LAST_REQUEST_TS = ts,
            REQUEST_HISTORY = deque_append (nat (max rpm 10)) h2 ts\<rparr>)"
    unfolding respect_rate_limits_def ts_def h2_def now3_def ww_def h1_def now2_def wi_def
      now1_def rpm_def mi_def
    by (simp add: Let_def)
  from d have dn: "0 \<le> at_entry d" "0 \<le> after_interval_sleep d"
    "0 \<le> after_window_sleep d" "0 \<le> at_stamp d"
    by (simp_all add: delays_ok_def)
  have cn: "clock \<le> now2"
    using dn by (simp add: now2_def now1_def)
  have lm: "LAST_REQUEST_TS limiter + mi \<le> now2"
    using dn by (simp add: now2_def wi_def)
  have nn: "now2 \<le> now3"
    using dn by (simp add: now3_def)
  have nt: "now3 \<le> ts"
    using dn by (simp add: ts_def)
  have dec: "int (length h1) < rpm \<or> (h1 \<noteq> [] \<and> hd h1 + 60 \<le> now3)"
  proof (cases "int (length h1) < rpm")
    case True
    then show ?thesis by simp
  next
    case False
    with rpm have "h1 \<noteq> []" by auto
    moreover have "hd h1 + 60 \<le> now3"
      using False dn by (simp add: now3_def ww_def)
    ultimately show ?thesis by simp
  qed
  have h2: "h2 = h1 \<or> h2 = popleft_expired (now3 - 60) h1"
    by (simp add: h2_def)
  have hist': "deque_append (nat (max rpm 10)) h2 ts =
      (case m of None \<Rightarrow> h2 @ [ts] | Some n \<Rightarrow> deque_append n h2 ts)"
    by (simp add: m_def rpm_def)
  from grant_keeps_inv [OF inv mi rpm cn lm nn nt h1_def dec h2 hist']
  have "limiter_inv mi rpm m ts ts (deque_append (nat (max rpm 10)) h2 ts) (G @ [ts])" .
  with res result show ?thesis by auto
qed

lemma llm_grants_inv:
  fixes rpm_env interval_env
  defines "rpm \<equiv> LLM_RPM_LIMIT rpm_env"
  defines "mi \<equiv> LLM_MIN_CALL_INTERVAL interval_env (LLM_RPM_LIMIT rpm_env)"
  defines "m \<equiv> Some (nat (max (LLM_RPM_LIMIT rpm_env) 10))"
  assumes mi: "0 < mi"
  shows "\<forall>d\<in>set ds. delays_ok d \<Longrightarrow>
     limiter_inv mi rpm m clock (LAST_REQUEST_TS limiter) (REQUEST_HISTORY limiter) G \<Longrightarrow>
     \<exists>clock' last' hist'. limiter_inv mi rpm m clock' last' hist'
        (G @ llm_grants rpm_env interval_env ds (clock, limiter))"
proof (induction ds arbitrary: clock limiter G)
  case Nil
  then show ?case by auto
next
  case (Cons d ds)
  obtain clock' limiter' where res:
    "respect_rate_limits rpm_env interval_env d (clock, limiter) = (clock', limiter')"
    by (metis surj_pair)
  from Cons.prems have d: "delays_ok d" and ds: "\<forall>d\<in>set ds. delays_ok d"
    by simp_all
  from respect_keeps_inv [OF Cons.prems(2) [unfolded mi_def rpm_def m_def]
      mi [unfolded mi_def] d res]
  have "limiter_inv mi rpm m clock' (LAST_REQUEST_TS limiter') (REQUEST_HISTORY limiter')
           (G @ [LAST_REQUEST_TS limiter'])"
    by (simp add: mi_def rpm_def m_def)
  from Cons.IH [OF ds this] res show ?case
    by (simp add: Let_def)
qed

lemma compute_wait_fields:
  "compute_wait now g = (wait_for, g1) \<Longrightarrow>
   g1 = g\<lparr>g_REQUEST_HISTORY := popleft_expired (now - 60) (g_REQUEST_HISTORY g)\<rparr>"
  by (auto simp: compute_wait_def Let_def)

lemma compute_wait_granted:
  assumes "compute_wait now g = (wait_for, g1)" and "wait_for \<le> 0" and "1 \<le> g_RPM_LIMIT g"
  shows "g_LAST_REQUEST_TS g + g_MIN_INTERVAL g \<le> now
     \<and> (int (length (g_REQUEST_HISTORY g1)) < g_RPM_LIMIT g
        \<or> (g_REQUEST_HISTORY g1 \<noteq> [] \<and> hd (g_REQUEST_HISTORY g1) + 60 \<le> now))"
proof -
  let ?h = "popleft_expired (now - 60) (g_REQUEST_HISTORY g)"
  from assms(1) have h: "g_REQUEST_HISTORY g1 = ?h"
    by (auto simp: compute_wait_def Let_def)
  from assms(1,2) have w: "g_LAST_REQUEST_TS g + g_MIN_INTERVAL g - now \<le> 0"
    "(if int (length ?h) \<ge> g_RPM_LIMIT g then max 0 (60 - (now - hd ?h)) else 0) \<le> 0"
    by (auto simp: compute_wait_def Let_def)
  show ?thesis
  proof (cases "int (length ?h) < g_RPM_LIMIT g")
    case True
    with w h show ?thesis by simp
  next
    case False
    with assms(3) have "?h \<noteq> []" by auto
    with False w h show ?thesis by simp
  qed
qed

lemma slot_pass_keeps_inv:
  assumes inv: "limiter_inv (g_MIN_INTERVAL g) (g_RPM_LIMIT g) None clock
      (g_LAST_REQUEST_TS g) (g_REQUEST_HISTORY g) G"
    and mi: "0 < g_MIN_INTERVAL g" and rpm: "1 \<le> g_RPM_LIMIT g"
    and d: "0 \<le> fst d" "0 \<le> snd d"
    and res: "slot_pass d (clock, g) = (wait_for, clock', g')"
  shows "g_MIN_INTERVAL g' = g_MIN_INTERVAL g \<and> g_RPM_LIMIT g' = g_RPM_LIMIT g
     \<and> limiter_inv (g_MIN_INTERVAL g) (g_RPM_LIMIT g) None clock'
          (g_LAST_REQUEST_TS g') (g_REQUEST_HISTORY g')
          (G @ (if wait_for \<le> 0 then [g_LAST_REQUEST_TS g'] else []))"
proof -
  define now where "now = clock + fst d"
  obtain w g1 where cw: "compute_wait now g = (w, g1)"
    by (metis surj_pair)
  note g1 = compute_wait_fields [OF cw]
  have cn: "clock \<le> now"
    using d by (simp add: now_def)
  show ?thesis
  proof (cases "w \<le> 0")
    case False
    with res cw have r: "wait_for = w" "clock' = now" "g' = g1"
      by (auto simp: slot_pass_def now_def Let_def)
    from purge_keeps_inv [OF inv mi cn] r g1 False show ?thesis
      by simp
  next
    case True
    let ?ts = "now + snd d"
    from True res cw have r: "wait_for = w" "clock' = ?ts" "g' = record_request ?ts g1"
      by (auto simp: slot_pass_def now_def Let_def)
    from compute_wait_granted [OF cw True rpm] g1
    have lm: "g_LAST_REQUEST_TS g + g_MIN_INTERVAL g \<le> now"
      and dec: "int (length (popleft_expired (now - 60) (g_REQUEST_HISTORY g))) < g_RPM_LIMIT g
        \<or> (popleft_expired (now - 60) (g_REQUEST_HISTORY g) \<noteq> []
           \<and> hd (popleft_expired (now - 60) (g_REQUEST_HISTORY g)) + 60 \<le> now)"
      by simp_all
    have nt: "now \<le> ?ts" using d by simp
    from grant_keeps_inv [OF inv mi rpm cn lm order_refl nt refl dec disjI1 [OF refl], of
        "popleft_expired (now - 60) (g_REQUEST_HISTORY g) @ [?ts]"]
    have "limiter_inv (g_MIN_INTERVAL g) (g_RPM_LIMIT g) None ?ts ?ts
        (popleft_expired (now - 60) (g_REQUEST_HISTORY g) @ [?ts]) (G @ [?ts])"
      by simp
    with r g1 True show ?thesis
      by (simp add: record_request_def)
  qed
qed

lemma global_grants_inv:
  "\<forall>d\<in>set ds. 0 \<le> fst d \<and> 0 \<le> snd d \<Longrightarrow>
   0 < g_MIN_INTERVAL g \<Longrightarrow> 1 \<le> g_RPM_LIMIT g \<Longrightarrow>
   limiter_inv (g_MIN_INTERVAL g) (g_RPM_LIMIT g) None clock
      (g_LAST_REQUEST_TS g) (g_REQUEST_HISTORY g) G \<Longrightarrow>
   \<exists>clock' last' hist'. limiter_inv (g_MIN_INTERVAL g) (g_RPM_LIMIT g) None clock' last' hist'
      (G @ global_grants ds (clock, g))"
proof (induction ds arbitrary: clock g G)
  case Nil
  then show ?case by auto
next
  case (Cons d ds)
  obtain wait_for clock' g' where res: "slot_pass d (clock, g) = (wait_for, clock', g')"
    by (metis prod_cases3)
  from Cons.prems(1) have d: "0 \<le> fst d" "0 \<le> snd d"
    and ds: "\<forall>d\<in>set ds. 0 \<le> fst d \<and> 0 \<le> snd d"
    by simp_all
  from slot_pass_keeps_inv [OF Cons.prems(4,2,3) d res]
  have eq: "g_MIN_INTERVAL g' = g_MIN_INTERVAL g" "g_RPM_LIMIT g' = g_RPM_LIMIT g"
    and inv': "limiter_inv (g_MIN_INTERVAL g') (g_RPM_LIMIT g') None clock'
          (g_LAST_REQUEST_TS g') (g_REQUEST_HISTORY g')
          (G @ (if wait_for \<le> 0 then [g_LAST_REQUEST_TS g'] else []))"
    by simp_all
  from Cons.prems(2,3) eq have pos: "0 < g_MIN_INTERVAL g'" "1 \<le> g_RPM_LIMIT g'"
    by simp_all
  from Cons.IH [OF ds pos inv'] res eq show ?case
    by (simp add: Let_def)
qed

lemma install_all_configured:
  "g_REQUEST_HISTORY g = [] \<Longrightarrow> 0 < g_MIN_INTERVAL g \<Longrightarrow> 1 \<le> g_RPM_LIMIT g \<Longrightarrow>
   g_REQUEST_HISTORY (install_all calls g) = [] \<and> 0 < g_MIN_INTERVAL (install_all calls g)
   \<and> 1 \<le> g_RPM_LIMIT (install_all calls g)"
proof (induction calls arbitrary: g)
  case Nil
  then show ?case by simp
next
  case (Cons c calls)
  obtain mi rpm where c: "c = (mi, rpm)" by (cases c)
  have "g_REQUEST_HISTORY (install_global_llm_rate_limiter mi rpm g) = []"
    "0 < g_MIN_INTERVAL (install_global_llm_rate_limiter mi rpm g)"
    "1 \<le> g_RPM_LIMIT (install_global_llm_rate_limiter mi rpm g)"
    using Cons.prems by (auto simp: install_global_llm_rate_limiter_def max_def)
  from Cons.IH [OF this] c show ?case by simp
qed

text \<open>
  Claim C1, as the code has it. When the configured minimum interval is positive (the
  default of \<^verbatim>\<open>llm.py\<close> is, and the global limiter makes its own at least 0.1 seconds),
  the clock is monotone and a sleep lasts at least as long as asked: the timestamps that
  \<^verbatim>\<open>_respect_rate_limits\<close> records in any sequence of calls, and those that the passes
  of \<^verbatim>\<open>_block_until_slot_sync\<close> and \<^verbatim>\<open>_block_until_slot_async\<close> record in any
  interleaving, differ pairwise by at least the interval, and at most the limit of them lie
  in the 60 seconds that end at any instant \<open>t\<close>, the instant \<open>t - 60\<close> excluded.
\<close>

theorem rate_limits_respected:
  "0 < LLM_MIN_CALL_INTERVAL None (LLM_RPM_LIMIT rpm_env)
   \<and> (0 < LLM_MIN_CALL_INTERVAL interval_env (LLM_RPM_LIMIT rpm_env)
        \<and> (\<forall>d\<in>set ds. delays_ok d)
      \<longrightarrow> spaced (LLM_MIN_CALL_INTERVAL interval_env (LLM_RPM_LIMIT rpm_env))
            (llm_grants rpm_env interval_env ds (clock, initial_llm_limiter))
          \<and> window_bounded (LLM_RPM_LIMIT rpm_env)
              (llm_grants rpm_env interval_env ds (clock, initial_llm_limiter)))
   \<and> ((\<forall>p\<in>set ps. 0 \<le> fst p \<and> 0 \<le> snd p)
      \<longrightarrow> 0 < g_MIN_INTERVAL (install_all calls (initial_globals imp m am))
          \<and> spaced (g_MIN_INTERVAL (install_all calls (initial_globals imp m am)))
              (global_grants ps (clock', install_all calls (initial_globals imp m am)))
          \<and> window_bounded (g_RPM_LIMIT (install_all calls (initial_globals imp m am)))
              (global_grants ps (clock', install_all calls (initial_globals imp m am))))"
proof (intro conjI impI)
  have "1 \<le> LLM_RPM_LIMIT rpm_env"
    by (simp add: LLM_RPM_LIMIT_def)
  then have "0 < 60 / real_of_int (LLM_RPM_LIMIT rpm_env)"
    by simp
  then show "0 < LLM_MIN_CALL_INTERVAL None (LLM_RPM_LIMIT rpm_env)"
    by (simp add: LLM_MIN_CALL_INTERVAL_def)
next
  let ?rpm = "LLM_RPM_LIMIT rpm_env"
  let ?mi = "LLM_MIN_CALL_INTERVAL interval_env ?rpm"
  let ?G = "llm_grants rpm_env interval_env ds (clock, initial_llm_limiter)"
  assume h: "0 < ?mi \<and> (\<forall>d\<in>set ds. delays_ok d)"
  have "1 \<le> ?rpm"
    by (simp add: LLM_RPM_LIMIT_def)
  then have "limiter_inv ?mi ?rpm (Some (nat (max ?rpm 10))) clock
      (LAST_REQUEST_TS initial_llm_limiter) (REQUEST_HISTORY initial_llm_limiter) []"
    using inv_initial [of "Some (nat (max ?rpm 10))" ?rpm ?mi clock 0]
    by (simp add: initial_llm_limiter_def)
  from llm_grants_inv [OF conjunct1 [OF h] conjunct2 [OF h] this]
  obtain c l hs where inv: "limiter_inv ?mi ?rpm (Some (nat (max ?rpm 10))) c l hs ?G"
    by auto
  then show "spaced ?mi ?G"
    by (auto simp: limiter_inv_def intro: inv_spaced)
  from inv show "window_bounded ?rpm ?G"
    by (simp add: limiter_inv_def)
next
  let ?g = "install_all calls (initial_globals imp m am)"
  let ?G = "global_grants ps (clock', ?g)"
  have conf: "g_REQUEST_HISTORY ?g = [] \<and> 0 < g_MIN_INTERVAL ?g \<and> 1 \<le> g_RPM_LIMIT ?g"
    by (intro install_all_configured) (simp_all add: initial_globals_def)
  then show "0 < g_MIN_INTERVAL ?g" by simp
  assume ps: "\<forall>p\<in>set ps. 0 \<le> fst p \<and> 0 \<le> snd p"
  from conf have "limiter_inv (g_MIN_INTERVAL ?g) (g_RPM_LIMIT ?g) None clock'
      (g_LAST_REQUEST_TS ?g) (g_REQUEST_HISTORY ?g) []"
    by (simp add: inv_initial)
  from global_grants_inv [OF ps _ _ this] conf
  obtain c l hs where inv: "limiter_inv (g_MIN_INTERVAL ?g) (g_RPM_LIMIT ?g) None c l hs ?G"
    by auto
  then show "spaced (g_MIN_INTERVAL ?g) ?G"
    by (auto simp: limiter_inv_def intro: inv_spaced)
  from inv show "window_bounded (g_RPM_LIMIT ?g) ?G"
    by (simp add: limiter_inv_def)
qed

lemma five_calls:
  "llm_grants (Some 4) (Some 15)
     [entry_delay 100, entry_delay 0, entry_delay 0, entry_delay 0, entry_delay 0]
     (0, initial_llm_limiter) = [100, 115, 130, 145, 160]"
  by (simp add: respect_rate_limits_def Let_def LLM_RPM_LIMIT_def LLM_MIN_CALL_INTERVAL_def
      entry_delay_def initial_llm_limiter_def popleft_expired_def deque_append_def)

lemmas limiter_eval =
  respect_rate_limits_def Let_def LLM_RPM_LIMIT_def LLM_MIN_CALL_INTERVAL_def
  entry_delay_def initial_llm_limiter_def popleft_expired_def deque_append_def
  slot_pass_def compute_wait_def record_request_def install_global_llm_rate_limiter_def
  initial_globals_def delays_ok_def

theorem rate_limits_respected_witness:
  "llm_grants (Some 4) (Some 15)
     [entry_delay 100, entry_delay 0, entry_delay 0, entry_delay 0, entry_delay 0]
     (0, initial_llm_limiter) = [100, 115, 130, 145, 160]
   \<and> spaced 15 [100, 115, 130, 145, 160]
   \<and> window_bounded 4 [100, 115, 130, 145, 160]
   \<and> global_grants [(100, 0), (0, 0), (15, 0)]
        (0, install_all [(15, 4)] (initial_globals True (Some Original) (Some Original)))
       = [100, 115]
   \<and> spaced 15 [100, 115]
   \<and> window_bounded 4 [100, 115]"
proof -
  let ?ds = "[entry_delay 100, entry_delay 0, entry_delay 0, entry_delay 0, entry_delay 0]"
  let ?ps = "[(100, 0), (0, 0), (15, 0)] :: (real \<times> real) list"
  let ?g = "install_all [(15, 4)] (initial_globals True (Some Original) (Some Original))"
  have five: "llm_grants (Some 4) (Some 15) ?ds (0, initial_llm_limiter)
      = [100, 115, 130, 145, 160]"
    by (simp add: limiter_eval)
  have two: "global_grants ?ps (0, ?g) = [100, 115]"
    by (simp add: limiter_eval)
  have g: "g_MIN_INTERVAL ?g = 15" "g_RPM_LIMIT ?g = 4"
    by (simp_all add: limiter_eval)
  have h1: "0 < LLM_MIN_CALL_INTERVAL (Some 15) (LLM_RPM_LIMIT (Some 4))
      \<and> (\<forall>d\<in>set ?ds. delays_ok d)"
    by (simp add: limiter_eval)
  have h2: "\<forall>p\<in>set ?ps. 0 \<le> fst p \<and> 0 \<le> snd p"
    by simp
  have c: "LLM_RPM_LIMIT (Some 4) = 4" "LLM_MIN_CALL_INTERVAL (Some 15) 4 = 15"
    by (simp_all add: LLM_MIN_CALL_INTERVAL_def LLM_RPM_LIMIT_def)
  note t = rate_limits_respected [where rpm_env = "Some 4" and interval_env = "Some 15"
      and ds = ?ds and clock = 0 and ps = ?ps and calls = "[(15, 4)]" and imp = True
      and m = "Some Original" and am = "Some Original" and clock' = 0]
  from t h1 have "spaced (LLM_MIN_CALL_INTERVAL (Some 15) (LLM_RPM_LIMIT (Some 4)))
        (llm_grants (Some 4) (Some 15) ?ds (0, initial_llm_limiter))
      \<and> window_bounded (LLM_RPM_LIMIT (Some 4))
        (llm_grants (Some 4) (Some 15) ?ds (0, initial_llm_limiter))"
    by blast
  then have a: "spaced 15 [100, 115, 130, 145, 160] \<and> window_bounded 4 [100, 115, 130, 145, 160]"
    by (simp only: five c)
  from t h2 have "spaced (g_MIN_INTERVAL ?g) (global_grants ?ps (0, ?g))
      \<and> window_bounded (g_RPM_LIMIT ?g) (global_grants ?ps (0, ?g))"
    by blast
  then have b: "spaced 15 [100, 115] \<and> window_bounded 4 [100, 115]"
    by (simp only: two g)
  from five two a b show ?thesis
    by blast
qed

text \<open>
  With \<^verbatim>\<open>LLM_MIN_CALL_INTERVAL=0\<close> and \<^verbatim>\<open>LLM_RPM_LIMIT=1\<close>, three calls of
  \<^verbatim>\<open>_respect_rate_limits\<close> at the readings 100, 160 and 160 of the clock are all
  granted at once: two timestamps lie in the 60 seconds that end at 160. And the global
  limiter, installed with a limit of 1, grants at 100 and at 160: when the instant 60
  seconds before is counted too, two timestamps lie in the window that ends at 160.
\<close>

theorem rate_limit_window_exceeded:
  "llm_grants (Some 1) (Some 0) [entry_delay 100, entry_delay 60, entry_delay 0]
     (0, initial_llm_limiter) = [100, 160, 160]
   \<and> list_all delays_ok [entry_delay 100, entry_delay 60, entry_delay 0]
   \<and> LLM_RPM_LIMIT (Some 1) = 1
   \<and> window_count 160 [100, 160, 160] = 2
   \<and> \<not> window_bounded (LLM_RPM_LIMIT (Some 1))
         (llm_grants (Some 1) (Some 0) [entry_delay 100, entry_delay 60, entry_delay 0]
            (0, initial_llm_limiter))
   \<and> global_grants [(100, 0), (60, 0)]
        (0, install_global_llm_rate_limiter 1 1
              (initial_globals True (Some Original) (Some Original)))
       = [100, 160]
   \<and> g_RPM_LIMIT (install_global_llm_rate_limiter 1 1
              (initial_globals True (Some Original) (Some Original))) = 1
   \<and> closed_window_count 160 [100, 160] = 2"
proof -
  have run: "llm_grants (Some 1) (Some 0) [entry_delay 100, entry_delay 60, entry_delay 0]
     (0, initial_llm_limiter) = [100, 160, 160]"
    by (simp add: limiter_eval)
  have cnt: "window_count 160 [100, 160, 160] = 2"
    by (simp add: window_count_def)
  have "\<not> window_bounded 1 [100, 160, 160]"
  proof
    assume "window_bounded 1 [100, 160, 160]"
    then have "int (window_count 160 [100, 160, 160]) \<le> 1"
      unfolding window_bounded_def by blast
    with cnt show False by simp
  qed
  moreover have "global_grants [(100, 0), (60, 0)]
        (0, install_global_llm_rate_limiter 1 1
              (initial_globals True (Some Original) (Some Original)))
       = [100, 160]"
    by (simp add: limiter_eval)
  ultimately show ?thesis
    using run cnt
    by (simp add: limiter_eval closed_window_count_def)
qed

end
